theory Spec2Isabelle
  imports Complex_Main "HOL-Library.Multiset" "HOL-Library.Product_Lexorder"
    "HOL-Library.Char_ord" "HOL-Library.List_Lexorder"
begin

section \<open>Data model\<close>

text \<open>
  The notebook \<^verbatim>\<open>notebooks/titanic.ipynb\<close> keeps the Titanic passengers in a DuckDB table
  named \<^verbatim>\<open>titanic\<close>, reads it into pandas DataFrames, cuts a shuffled copy into samples and
  hands DataFrames to a validation library.

  A cell of a table is a nullable scalar. A finite float is the rational number it denotes, so
  comparisons are exact; a missing value (SQL NULL, pandas NaN/None) is \<open>Null\<close>.
\<close>

datatype scalar = IntV int | FloatV rat | StrV string | Null

text \<open>
  A row maps column names to cells, in column order. A table is the stored sequence of rows.
  A DataFrame is a sequence of rows, each under its index label. The row identifier of a row
  is the integer in its column \<^verbatim>\<open>id\<close>, if it has one.
\<close>

type_synonym row = "(string \<times> scalar) list"

type_synonym table = "row list"

type_synonym dataframe = "(nat \<times> row) list"

definition col :: "string \<Rightarrow> row \<Rightarrow> scalar option" where
  "col c r = map_of r c"

definition row_id :: "row \<Rightarrow> int option" where
  "row_id r = (case col ''id'' r of Some (IntV i) \<Rightarrow> Some i | _ \<Rightarrow> None)"

text \<open>
  A DuckDB database is its catalog: the tables by name. A connection is the database it is
  connected to; a statement takes the database and returns the database after it.
\<close>

type_synonym database = "string \<Rightarrow> table option"

text \<open>
  The exceptions of the modelled code, and \<open>InvalidArgument\<close>, the error kind the
  specification names; nothing in the notebook raises the latter.
\<close>

datatype error =
  ZeroDivisionError | CatalogException | KeyError | ValueError | TypeError | InvalidArgument

section \<open>Library operations the notebook calls\<close>

text \<open>
  \<^verbatim>\<open>con.sql("SELECT * FROM titanic").fetchdf()\<close> (and \<^verbatim>\<open>.df()\<close>): the rows in stored order
  under the index labels \<open>0, 1, ...\<close>.
\<close>

definition fetchdf :: "table \<Rightarrow> dataframe" where
  "fetchdf t = zip [0..<length t] t"

text \<open>\<^verbatim>\<open>df.reset_index(drop=True)\<close>: a new frame, the same rows relabelled \<open>0, 1, ...\<close>.\<close>

definition reset_index_drop :: "dataframe \<Rightarrow> dataframe" where
  "reset_index_drop df = zip [0..<length df] (map snd df)"

text \<open>
  \<^verbatim>\<open>df.sample(frac=1, random_state=rs)\<close>: pandas draws a permutation of the positions
  \<open>0 ..< len(df)\<close> and takes the rows at these positions, labels included. The draw is a
  parameter \<open>rng\<close> of the model: \<open>rng rs k\<close> is what pandas draws for \<open>k\<close> rows under
  \<^verbatim>\<open>random_state=rs\<close> (\<open>None\<close> when the argument is left out), or the exception it raises.
\<close>

definition sample_frac1 ::
  "(int option \<Rightarrow> nat \<Rightarrow> error + nat list) \<Rightarrow> int option \<Rightarrow> dataframe \<Rightarrow> error + dataframe"
where
  "sample_frac1 rng random_state df =
     (case rng random_state (length df) of
        Inl e \<Rightarrow> Inl e
      | Inr positions \<Rightarrow> Inr (map (\<lambda>i. df ! i) positions))"

text \<open>The draw succeeded, and what it drew is a permutation of the positions.\<close>

definition is_permutation :: "error + nat list \<Rightarrow> nat \<Rightarrow> bool" where
  "is_permutation d k = (case d of Inl e \<Rightarrow> False | Inr p \<Rightarrow> mset p = mset [0..<k])"

text \<open>
  How pandas chooses the generator. With an integer \<^verbatim>\<open>random_state\<close> it seeds a generator of
  its own, \<^verbatim>\<open>numpy.random.RandomState(seed)\<close>, which rejects a seed outside
  \<open>0 .. 2\<^sup>3\<^sup>2 - 1\<close> with ValueError; what it draws is a function \<open>seeded\<close> of the seed and
  the row count. Without \<^verbatim>\<open>random_state\<close> it draws from numpy's global generator, whose
  state comes from the operating system's entropy and from every draw made before:
  \<open>unseeded\<close> is a function of that state \<open>entropy\<close>. The two algorithms are parameters.
\<close>

definition pandas_rng ::
  "(int \<Rightarrow> nat \<Rightarrow> nat list) \<Rightarrow> ('e \<Rightarrow> nat \<Rightarrow> nat list) \<Rightarrow> 'e
     \<Rightarrow> int option \<Rightarrow> nat \<Rightarrow> error + nat list"
where
  "pandas_rng seeded unseeded entropy random_state k =
     (case random_state of
        None \<Rightarrow> Inr (unseeded entropy k)
      | Some seed \<Rightarrow>
          if 0 \<le> seed \<and> seed < 2 ^ 32 then Inr (seeded seed k) else Inl ValueError)"

text \<open>
  \<^verbatim>\<open>df.iloc[start:stop]\<close>: Python's slice. A negative bound counts from the end, and both
  bounds are clipped to the frame, so a slice beyond the end is empty and never an error.
\<close>

definition iloc_slice :: "'a list \<Rightarrow> int \<Rightarrow> int \<Rightarrow> 'a list" where
  "iloc_slice xs start stop =
     (let n = int (length xs);
          a = (if start < 0 then max 0 (n + start) else min start n);
          b = (if stop < 0 then max 0 (n + stop) else min stop n)
      in take (nat (b - a)) (drop (nat a) xs))"

text \<open>
  \<^verbatim>\<open>math.ceil(a / b)\<close> for integers, \<open>b\<close> not zero: the least integer not below the
  quotient. (The float quotient is exact enough for this below \<open>2\<^sup>5\<^sup>3\<close> rows.)
\<close>

definition ceil_div :: "int \<Rightarrow> int \<Rightarrow> int" where
  "ceil_div a b = - ((- a) div b)"

text \<open>\<^verbatim>\<open>range(n)\<close>: \<open>0, ..., n - 1\<close>, empty when \<open>n \<le> 0\<close>.\<close>

definition py_range :: "int \<Rightarrow> int list" where
  "py_range n = [0..n - 1]"

section \<open>The partition: \<^verbatim>\<open>create_random_samples\<close>\<close>

text \<open>
  The loop \<^verbatim>\<open>for i in range(n_sample)\<close>, with the two lists it appends to as accumulator.
\<close>

fun sample_loop ::
  "dataframe \<Rightarrow> int \<Rightarrow> int list \<Rightarrow> dataframe list \<times> nat list \<Rightarrow> dataframe list \<times> nat list"
where
  "sample_loop shuffled_rows rows_per_sample [] acc = acc"
| "sample_loop shuffled_rows rows_per_sample (i # rest) (samples, sample_size) =
     (let offset = i * rows_per_sample;
          sample = iloc_slice shuffled_rows offset (offset + rows_per_sample)
      in sample_loop shuffled_rows rows_per_sample rest
           (samples @ [sample], sample_size @ [length sample]))"

text \<open>
  The function returns its result (or the exception it raises) and the database after it.
  Both queries are SELECTs. A missing table \<^verbatim>\<open>titanic\<close> is DuckDB's catalog error; the
  division \<^verbatim>\<open>total_rows / n_sample\<close> raises on \<open>n_sample = 0\<close>, after the count and
  before the rows are fetched; the shuffle, called with \<^verbatim>\<open>random_state=RANDOM_SEED\<close>, raises
  on a seed it rejects, before the loop.
\<close>

definition create_random_samples ::
  "(int option \<Rightarrow> nat \<Rightarrow> error + nat list) \<Rightarrow> database \<Rightarrow> int \<Rightarrow> int
     \<Rightarrow> (error + dataframe list \<times> nat list) \<times> database"
where
  "create_random_samples rng con n_sample RANDOM_SEED =
     (case con ''titanic'' of
        None \<Rightarrow> (Inl CatalogException, con)
      | Some titanic \<Rightarrow>
          (let total_rows = int (length titanic) in
           if n_sample = 0 then (Inl ZeroDivisionError, con)
           else
             (let rows_per_sample = ceil_div total_rows n_sample;
                  all_rows = fetchdf titanic
              in case sample_frac1 rng (Some RANDOM_SEED) all_rows of
                   Inl e \<Rightarrow> (Inl e, con)
                 | Inr sampled \<Rightarrow>
                     (let shuffled_rows = reset_index_drop sampled
                      in (Inr (sample_loop shuffled_rows rows_per_sample (py_range n_sample)
                                 ([], [])),
                          con)))))"

section \<open>The cross-check: \<^verbatim>\<open>concat_samples\<close>\<close>

text \<open>\<^verbatim>\<open>pd.concat(frames)\<close>: the frames one after the other, labels kept; no frames is an error.\<close>

definition pd_concat :: "dataframe list \<Rightarrow> error + dataframe" where
  "pd_concat frames = (if frames = [] then Inl ValueError else Inr (concat frames))"

text \<open>
  \<^verbatim>\<open>df.sort_values('id')\<close>: a new frame, the rows in ascending order of the column, labels
  kept. A frame without the column raises KeyError. Numbers are ordered by value, strings
  lexicographically, and nulls come last; numbers and strings in one column cannot be
  compared (TypeError). pandas' default sort is not stable, the model's is: they agree where
  no two rows have the same value in the column.
\<close>

definition id_sort_key :: "row \<Rightarrow> nat \<times> rat \<times> string" where
  "id_sort_key r =
     (case col ''id'' r of
        Some (IntV i) \<Rightarrow> (0, of_int i, [])
      | Some (FloatV q) \<Rightarrow> (0, q, [])
      | Some (StrV s) \<Rightarrow> (0, 0, s)
      | _ \<Rightarrow> (1, 0, []))"

definition is_number :: "scalar \<Rightarrow> bool" where
  "is_number v = (case v of IntV i \<Rightarrow> True | FloatV q \<Rightarrow> True | _ \<Rightarrow> False)"

definition is_string :: "scalar \<Rightarrow> bool" where
  "is_string v = (case v of StrV s \<Rightarrow> True | _ \<Rightarrow> False)"

definition sort_values_id :: "dataframe \<Rightarrow> error + dataframe" where
  "sort_values_id df =
     (let ids = map (\<lambda>(l, r). col ''id'' r) df in
      if None \<in> set ids then Inl KeyError
      else if list_ex (\<lambda>c. is_number (the c)) ids \<and> list_ex (\<lambda>c. is_string (the c)) ids
      then Inl TypeError
      else Inr (sort_key (\<lambda>(l, r). id_sort_key r) df))"

text \<open>
  \<^verbatim>\<open>concat_samples = pd.concat(samples).sort_values('id').reset_index(drop=True)\<close>,
  \<^verbatim>\<open>original_df = con.sql("SELECT * FROM titanic").df()\<close> and
  \<^verbatim>\<open>identical = original_df.equals(concat_samples)\<close>.
\<close>

definition concat_samples :: "dataframe list \<Rightarrow> error + dataframe" where
  "concat_samples samples =
     (case pd_concat samples of
        Inl e \<Rightarrow> Inl e
      | Inr d \<Rightarrow> (case sort_values_id d of
                   Inl e \<Rightarrow> Inl e
                 | Inr s \<Rightarrow> Inr (reset_index_drop s)))"

definition original_df :: "database \<Rightarrow> error + dataframe" where
  "original_df con =
     (case con ''titanic'' of None \<Rightarrow> Inl CatalogException | Some titanic \<Rightarrow> Inr (fetchdf titanic))"

definition identical :: "database \<Rightarrow> dataframe list \<Rightarrow> error + bool" where
  "identical con samples =
     (case original_df con of
        Inl e \<Rightarrow> Inl e
      | Inr d \<Rightarrow> (case concat_samples samples of Inl e \<Rightarrow> Inl e | Inr c \<Rightarrow> Inr (d = c)))"

text \<open>
  The two cells in sequence: \<^verbatim>\<open>samples, sample_size = create_random_samples(con, n)\<close>,
  then the cross-check on these samples.
\<close>

definition cross_check ::
  "(int option \<Rightarrow> nat \<Rightarrow> error + nat list) \<Rightarrow> database \<Rightarrow> int \<Rightarrow> int \<Rightarrow> error + bool"
where
  "cross_check rng con n_sample RANDOM_SEED =
     (case fst (create_random_samples rng con n_sample RANDOM_SEED) of
        Inl e \<Rightarrow> Inl e
      | Inr (samples, sample_size) \<Rightarrow> identical con samples)"

section \<open>Ingestion: \<^verbatim>\<open>get_create_titanic_db\<close>\<close>

text \<open>
  The four statements the function executes. \<^verbatim>\<open>CREATE TABLE\<close> fails on a name that is
  taken, \<^verbatim>\<open>IF NOT EXISTS\<close> skips instead; \<^verbatim>\<open>DROP\<close> and \<^verbatim>\<open>RENAME\<close> fail on a table that
  is missing.
\<close>

definition create_table_if_not_exists_as :: "string \<Rightarrow> table \<Rightarrow> database \<Rightarrow> database" where
  "create_table_if_not_exists_as name rows db = (if db name \<noteq> None then db else db(name \<mapsto> rows))"

definition create_table_as :: "string \<Rightarrow> table \<Rightarrow> database \<Rightarrow> error + database" where
  "create_table_as name rows db =
     (if db name \<noteq> None then Inl CatalogException else Inr (db(name \<mapsto> rows)))"

definition drop_table :: "string \<Rightarrow> database \<Rightarrow> error + database" where
  "drop_table name db = (if db name = None then Inl CatalogException else Inr (db(name := None)))"

definition rename_table :: "string \<Rightarrow> string \<Rightarrow> database \<Rightarrow> error + database" where
  "rename_table old new db =
     (case db old of
        None \<Rightarrow> Inl CatalogException
      | Some t \<Rightarrow> if db new \<noteq> None then Inl CatalogException else Inr (db(old := None, new \<mapsto> t)))"

text \<open>
  \<^verbatim>\<open>SELECT *, ROW_NUMBER() OVER () AS id FROM titanic\<close>: every row with a further column,
  numbered from 1 in stored order. The column is named \<^verbatim>\<open>id\<close>; where the table has a column
  of that name already, DuckDB keeps that column and names the new one \<^verbatim>\<open>id_1\<close>. (A table
  that has both names already is not modelled further.)
\<close>

definition row_number_column :: "row \<Rightarrow> string" where
  "row_number_column r = (if col ''id'' r = None then ''id'' else ''id_1'')"

definition add_row_number :: "table \<Rightarrow> table" where
  "add_row_number t =
     map2 (\<lambda>k r. r @ [(row_number_column r, IntV (int k))]) [1..<Suc (length t)] t"

text \<open>
  \<open>db_file\<close> is the database file at \<^verbatim>\<open>db_path\<close>, \<open>None\<close> when there is no such file;
  \<open>csv\<close> is what \<^verbatim>\<open>read_csv(url)\<close> yields. \<^verbatim>\<open>duckdb.connect\<close> opens the file and creates
  an empty database when it is missing.
\<close>

definition get_create_titanic_db :: "database option \<Rightarrow> table \<Rightarrow> bool \<Rightarrow> error + database" where
  "get_create_titanic_db db_file csv force_create =
     (let con = (case db_file of None \<Rightarrow> Map.empty | Some db \<Rightarrow> db) in
      if db_file = None \<or> force_create then
        (let con1 = create_table_if_not_exists_as ''titanic'' csv con in
         case con1 ''titanic'' of
           None \<Rightarrow> Inl CatalogException
         | Some titanic \<Rightarrow>
             (case create_table_as ''titanic_with_id'' (add_row_number titanic) con1 of
                Inl e \<Rightarrow> Inl e
              | Inr con2 \<Rightarrow>
                  (case drop_table ''titanic'' con2 of
                     Inl e \<Rightarrow> Inl e
                   | Inr con3 \<Rightarrow> rename_table ''titanic_with_id'' ''titanic'' con3)))
      else Inr con)"

text \<open>
  The row identifiers of the table that ingestion leaves, in stored order (what a query for
  the column \<^verbatim>\<open>id\<close> on the returned connection shows).
\<close>

definition ingested_ids :: "database option \<Rightarrow> table \<Rightarrow> bool \<Rightarrow> error + int option list" where
  "ingested_ids db_file csv force_create =
     (case get_create_titanic_db db_file csv force_create of
        Inl e \<Rightarrow> Inl e
      | Inr con \<Rightarrow>
          (case con ''titanic'' of
             None \<Rightarrow> Inl CatalogException
           | Some titanic \<Rightarrow> Inr (map row_id titanic)))"

section \<open>Rules, validation and sundering\<close>

text \<open>
  The notebook configures a validation library (pointblank) and calls it; the library is not
  part of the repository. The rule engine below is the one the specification describes.
\<close>

text \<open>
  Modelled from the spec: the rule variants of the data model (the library's
  \<^verbatim>\<open>col_vals_not_null\<close>, \<^verbatim>\<open>col_vals_between\<close> and \<^verbatim>\<open>col_vals_in_set\<close> steps).
\<close>

datatype null_policy = PassOnNull | FailOnNull

datatype rule =
    NotNull string
  | Between string rat rat null_policy
  | InSet string "scalar set"

text \<open>The number a numeric cell denotes.\<close>

fun num_of :: "scalar \<Rightarrow> rat option" where
  "num_of (IntV i) = Some (of_int i)"
| "num_of (FloatV q) = Some q"
| "num_of (StrV s) = None"
| "num_of Null = None"

text \<open>
  Modelled from the spec: the per-row verdict of a rule, which the validation library
  computes. NotNull passes a value that is not null; Between passes a number within the
  bounds, both inclusive, and a null under PassOnNull only; InSet passes a member of the
  allowed values and never a null. A column that the row does not have fails the row.
\<close>

fun passes :: "rule \<Rightarrow> row \<Rightarrow> bool" where
  "passes (NotNull c) r =
     (case col c r of None \<Rightarrow> False | Some v \<Rightarrow> v \<noteq> Null)"
| "passes (Between c lo hi pol) r =
     (case col c r of
        None \<Rightarrow> False
      | Some v \<Rightarrow>
          if v = Null then pol = PassOnNull
          else (case num_of v of None \<Rightarrow> False | Some q \<Rightarrow> lo \<le> q \<and> q \<le> hi))"
| "passes (InSet c allowed) r =
     (case col c r of None \<Rightarrow> False | Some v \<Rightarrow> v \<noteq> Null \<and> v \<in> allowed)"

text \<open>
  Modelled from the spec: the rows a rule fails, in table order, and the result and report
  records of the data model.
\<close>

definition failing_rows :: "rule \<Rightarrow> table \<Rightarrow> table" where
  "failing_rows rl t = filter (\<lambda>r. \<not> passes rl r) t"

record rule_result =
  checked_rule :: rule
  rows_evaluated :: nat
  rows_passed :: nat
  failing_row_ids :: "int option list"

record validation_report =
  rule_results :: "rule_result list"
  all_passed :: bool

text \<open>
  Modelled from the spec: the result of one rule over a table. The rule is evaluated over all
  rows and records the identifiers of its failing rows in table order.
\<close>

definition evaluate_rule :: "table \<Rightarrow> rule \<Rightarrow> rule_result" where
  "evaluate_rule t rl =
     \<lparr>checked_rule = rl,
      rows_evaluated = length t,
      rows_passed = length (filter (passes rl) t),
      failing_row_ids = map row_id (failing_rows rl t)\<rparr>"

text \<open>
  Modelled from the spec: \<open>interrogate(table, rule_set)\<close>, the validation engine (the
  library's \<^verbatim>\<open>.interrogate()\<close>). Every rule is evaluated on its own, in declaration order.
\<close>

definition interrogate :: "table \<Rightarrow> rule list \<Rightarrow> validation_report" where
  "interrogate t rules =
     (let rs = map (evaluate_rule t) rules
      in \<lparr>rule_results = rs, all_passed = list_all (\<lambda>x. failing_row_ids x = []) rs\<rparr>)"

text \<open>
  Modelled from the spec: \<open>sunder(table, report)\<close>, the report builder's split (the library's
  \<^verbatim>\<open>get_sundered_data\<close>). The failing
  table holds the rows whose identifier some rule result lists, the passing table the others.
\<close>

definition sunder :: "table \<Rightarrow> validation_report \<Rightarrow> table \<times> table" where
  "sunder t report =
     (let failing_ids = concat (map failing_row_ids (rule_results report))
      in (filter (\<lambda>r. row_id r \<notin> set failing_ids) t,
          filter (\<lambda>r. row_id r \<in> set failing_ids) t))"

subsection \<open>The notebook's configuration\<close>

definition PASSENGER_CLASS :: "scalar set" where
  "PASSENGER_CLASS = {IntV 1, IntV 2, IntV 3}"

definition PORT_EMBARKED :: "scalar set" where
  "PORT_EMBARKED = {StrV ''C'', StrV ''Q'', StrV ''S''}"

definition SURVIVED :: "scalar set" where
  "SURVIVED = {IntV 0, IntV 1}"

definition SEX :: "scalar set" where
  "SEX = {StrV ''male'', StrV ''female''}"

definition MIN_AGE :: rat where "MIN_AGE = 0"

definition MAX_AGE :: rat where "MAX_AGE = 70"

definition MIN_FARE :: rat where "MIN_FARE = 0"

definition MAX_FARE :: rat where "MAX_FARE = 500"

text \<open>
  The validation steps of \<^verbatim>\<open>validate_titanic_data_sample\<close>, in the order of the chain.
  \<^verbatim>\<open>na_pass=True\<close> is PassOnNull; the library's default is \<^verbatim>\<open>na_pass=False\<close>.
\<close>

definition titanic_rules :: "rule list" where
  "titanic_rules =
     [NotNull ''survived'',
      NotNull ''pclass'',
      NotNull ''sex'',
      NotNull ''age'',
      NotNull ''ticket'',
      NotNull ''fare'',
      NotNull ''embarked'',
      Between ''age'' MIN_AGE MAX_AGE PassOnNull,
      Between ''fare'' MIN_FARE MAX_FARE FailOnNull,
      InSet ''pclass'' PASSENGER_CLASS,
      InSet ''embarked'' PORT_EMBARKED,
      InSet ''survived'' SURVIVED,
      InSet ''sex'' SEX]"



section \<open>Views and sample data for the statements\<close>

text \<open>
  The shuffled, relabelled frame of the partition for the drawn positions \<open>p\<close>, and the
  \<open>i\<close>-th chunk of \<open>c\<close> rows of a frame.
\<close>

definition shuffled :: "nat list \<Rightarrow> table \<Rightarrow> dataframe" where
  "shuffled p t = reset_index_drop (map (\<lambda>i. fetchdf t ! i) p)"

definition chunk :: "'a list \<Rightarrow> nat \<Rightarrow> nat \<Rightarrow> 'a list" where
  "chunk xs c i = take c (drop (i * c) xs)"

text \<open>The rows per sample that the partition computes, as a natural number.\<close>

definition rows_per_sample :: "nat \<Rightarrow> int \<Rightarrow> nat" where
  "rows_per_sample total_rows n_sample = nat (ceil_div (int total_rows) n_sample)"

text \<open>
  Every row has an integer identifier. A table whose identifiers ascend in stored order (so no
  two rows share one) is what ingestion builds from a CSV that has no column \<^verbatim>\<open>id\<close>.
\<close>

definition has_ids :: "table \<Rightarrow> bool" where
  "has_ids t = list_all (\<lambda>r. row_id r \<noteq> None) t"

definition ids_ascending :: "table \<Rightarrow> bool" where
  "ids_ascending t =
     (has_ids t \<and> sorted_wrt (<) (map (\<lambda>r. the (row_id r)) t))"

text \<open>
  Generators for the concrete instances. The seeded one rotates the positions by the seed and
  reverses them, the unseeded one rotates them by the entropy, a number here. Any other
  algorithms would do; the statements quantify over them.
\<close>

definition demo_seeded :: "int \<Rightarrow> nat \<Rightarrow> nat list" where
  "demo_seeded seed k = rev (rotate (nat \<bar>seed\<bar>) [0..<k])"

definition demo_unseeded :: "nat \<Rightarrow> nat \<Rightarrow> nat list" where
  "demo_unseeded entropy k = rotate entropy [0..<k]"

definition demo_rng :: "int option \<Rightarrow> nat \<Rightarrow> error + nat list" where
  "demo_rng = pandas_rng demo_seeded demo_unseeded 1"

text \<open>A CSV of \<open>k\<close> passengers, and the database after ingesting it into a fresh file.\<close>

definition passengers :: "nat \<Rightarrow> table" where
  "passengers k = map (\<lambda>i. [(''ticket'', IntV (100 + int i)), (''sex'', StrV ''female'')]) [0..<k]"

definition ingested :: "nat \<Rightarrow> database" where
  "ingested k = [''titanic'' \<mapsto> add_row_number (passengers k)]"

text \<open>
  A database whose table is stored in descending order of its identifiers, and a CSV that
  has a column \<^verbatim>\<open>id\<close> of its own, the same value in both rows.
\<close>

definition descending :: database where
  "descending = [''titanic'' \<mapsto>
     [[(''ticket'', IntV 103), (''id'', IntV 3)],
      [(''ticket'', IntV 102), (''id'', IntV 2)],
      [(''ticket'', IntV 101), (''id'', IntV 1)]]]"

definition csv_with_id :: table where
  "csv_with_id =
     [[(''id'', IntV 7), (''ticket'', IntV 101)],
      [(''id'', IntV 7), (''ticket'', IntV 102)]]"

text \<open>
  Scenario A of the specification: ten rows, one age missing, one age 85. Scenario B: the
  ports C, Q, S, X and a missing one.
\<close>

definition scenario_a :: table where
  "scenario_a = add_row_number (map (\<lambda>a. [(''age'', a)])
     [FloatV 22, FloatV 38, FloatV 26, Null, FloatV 35, FloatV 85, FloatV 54, FloatV 2,
      FloatV 27, FloatV 14])"

definition scenario_b :: table where
  "scenario_b = add_row_number (map (\<lambda>e. [(''embarked'', e)])
     [StrV ''C'', StrV ''Q'', StrV ''S'', StrV ''X'', Null])"

section \<open>Slices and the loop\<close>

lemma sample_loop_map:
  "sample_loop S c js (A, B) =
     (A @ map (\<lambda>i. iloc_slice S (i * c) (i * c + c)) js,
      B @ map (\<lambda>i. length (iloc_slice S (i * c) (i * c + c))) js)"
  by (induction js arbitrary: A B) (simp_all add: Let_def)

lemma py_range_nat: "py_range (int n) = map int [0..<n]"
proof (induction n)
  case 0
  then show ?case by (simp add: py_range_def)
next
  case (Suc n)
  have "[0..int (Suc n) - 1] = [0..int n - 1] @ [int n]"
    using upto_rec2 [of 0 "int n"] by simp
  with Suc show ?case by (simp add: py_range_def)
qed

lemma py_range_nonpos: "n \<le> 0 \<Longrightarrow> py_range n = []"
  by (simp add: py_range_def)

lemma ceil_div_nonneg:
  assumes "0 < n" and "0 \<le> a"
  shows "0 \<le> ceil_div a n"
proof -
  have "(- a) div n \<le> 0"
    using assms by (intro div_nonpos_pos_le0) simp_all
  then show ?thesis by (simp add: ceil_div_def)
qed

lemma ceil_div_covers:
  assumes "0 < n"
  shows "a \<le> n * ceil_div a n"
proof -
  have "0 \<le> (- a) mod n" using assms by simp
  moreover have "n * ((- a) div n) + (- a) mod n = - a" by simp
  ultimately have "n * ((- a) div n) \<le> - a" by linarith
  then show ?thesis by (simp add: ceil_div_def)
qed

lemma iloc_slice_nat:
  "iloc_slice xs (int (i * k)) (int (i * k + k)) = take k (drop (i * k) xs)"
proof (cases "i * k \<le> length xs")
  case True
  have "iloc_slice xs (int (i * k)) (int (i * k + k)) =
          take (min (i * k + k) (length xs) - i * k) (drop (i * k) xs)"
    using True unfolding iloc_slice_def Let_def
    by (simp add: min_def nat_diff_distrib' del: of_nat_mult of_nat_add)
  also have "\<dots> = take k (drop (i * k) xs)"
    using True by (simp add: min_def)
  finally show ?thesis .
next
  case False
  then have "iloc_slice xs (int (i * k)) (int (i * k + k)) = []"
    unfolding iloc_slice_def Let_def
    by (simp add: min_def del: of_nat_mult of_nat_add)
  with False show ?thesis by simp
qed

lemma iloc_slice_chunk:
  assumes "0 \<le> c"
  shows "iloc_slice xs (int i * c) (int i * c + c) = take (nat c) (drop (i * nat c) xs)"
proof -
  have "int i * c = int (i * nat c)" and "int i * c + c = int (i * nat c + nat c)"
    using assms by simp_all
  then show ?thesis by (simp only: iloc_slice_nat)
qed

section \<open>What the partition returns\<close>

lemma length_chunk: "length (chunk xs c i) = min c (length xs - i * c)"
  by (simp add: chunk_def)

lemma concat_chunks: "concat (map (chunk xs c) [0..<n]) = take (n * c) xs"
proof (induction n)
  case 0
  then show ?case by simp
next
  case (Suc n)
  have "take (n * c + c) xs = take (n * c) xs @ take c (drop (n * c) xs)"
    by (rule take_add)
  with Suc show ?case by (simp add: chunk_def add.commute)
qed

lemma rows_per_sample_int:
  "1 \<le> n \<Longrightarrow> ceil_div (int R) n = int (rows_per_sample R n)"
  using ceil_div_nonneg [of n "int R"] by (simp add: rows_per_sample_def)

lemma rows_per_sample_covers:
  assumes "1 \<le> n"
  shows "R \<le> nat n * rows_per_sample R n"
proof -
  have "int R \<le> n * ceil_div (int R) n"
    using assms by (intro ceil_div_covers) simp
  also have "\<dots> = int (nat n * rows_per_sample R n)"
    using assms by (simp add: rows_per_sample_int)
  finally show ?thesis by (simp only: of_nat_le_iff)
qed

lemma length_fetchdf: "length (fetchdf t) = length t"
  by (simp add: fetchdf_def)

lemma map_snd_fetchdf: "map snd (fetchdf t) = t"
  by (simp add: fetchdf_def)

lemma map_snd_reset_index_drop: "map snd (reset_index_drop df) = map snd df"
  by (simp add: reset_index_drop_def)

lemma length_reset_index_drop: "length (reset_index_drop df) = length df"
  by (simp add: reset_index_drop_def)

lemma is_permutation_drawn:
  assumes "is_permutation d k"
  obtains p where "d = Inr p" and "mset p = mset [0..<k]"
  using assms by (cases d) (simp_all add: is_permutation_def)

lemma partition_result:
  assumes "con ''titanic'' = Some T" and "1 \<le> n" and "rng (Some seed) (length T) = Inr p"
  shows "create_random_samples rng con n seed =
    (Inr (map (chunk (shuffled p T) (rows_per_sample (length T) n)) [0..<nat n],
          map (\<lambda>i. length (chunk (shuffled p T) (rows_per_sample (length T) n) i))
            [0..<nat n]),
     con)"
proof -
  have c: "0 \<le> ceil_div (int (length T)) n"
    using assms(2) by (intro ceil_div_nonneg) simp_all
  have r: "py_range n = map int [0..<nat n]"
    using py_range_nat [of "nat n"] assms(2) by simp
  show ?thesis
    using assms c
    by (simp add: create_random_samples_def Let_def sample_frac1_def length_fetchdf
        sample_loop_map r o_def iloc_slice_chunk chunk_def shuffled_def rows_per_sample_def)
qed

lemma shuffled_rows_mset:
  assumes "mset p = mset [0..<length T]"
  shows "mset (map snd (shuffled p T)) = mset T"
proof -
  have "mset (map (\<lambda>i. fetchdf T ! i) p) = image_mset ((!) (fetchdf T)) (mset p)"
    by simp
  also have "\<dots> = image_mset ((!) (fetchdf T)) (mset [0..<length (fetchdf T)])"
    using assms by (simp add: length_fetchdf)
  also have "\<dots> = mset (map ((!) (fetchdf T)) [0..<length (fetchdf T)])" by simp
  also have "\<dots> = mset (fetchdf T)" by (simp only: map_nth)
  finally have "mset (map snd (map (\<lambda>i. fetchdf T ! i) p)) = mset (map snd (fetchdf T))"
    by (metis mset_map)
  then show ?thesis
    by (simp add: shuffled_def map_snd_reset_index_drop map_snd_fetchdf)
qed

lemma length_shuffled:
  assumes "mset p = mset [0..<length T]"
  shows "length (shuffled p T) = length T"
proof -
  have "mset (map snd (shuffled p T)) = mset T"
    using assms by (rule shuffled_rows_mset)
  then have "size (mset (map snd (shuffled p T))) = size (mset T)" by simp
  then show ?thesis by simp
qed

lemma concat_samples_shuffled:
  assumes "1 \<le> n" and "mset p = mset [0..<length T]"
  shows "concat (map (chunk (shuffled p T) (rows_per_sample (length T) n)) [0..<nat n])
           = shuffled p T"
proof -
  have "concat (map (chunk (shuffled p T) (rows_per_sample (length T) n)) [0..<nat n])
          = take (nat n * rows_per_sample (length T) n) (shuffled p T)"
    by (simp only: concat_chunks)
  also have "\<dots> = shuffled p T"
    using rows_per_sample_covers [OF assms(1), of "length T"]
    by (simp add: length_shuffled [OF assms(2)])
  finally show ?thesis .
qed

section \<open>Sample sizes\<close>

lemma mset_rotate: "mset (rotate m xs) = mset xs"
proof -
  have one: "mset (rotate1 ys) = mset ys" for ys :: "'a list"
    by (cases ys) simp_all
  show ?thesis by (induction m) (simp_all add: one)
qed

lemma demo_seeded_permutation: "mset (demo_seeded seed k) = mset [0..<k]"
  by (simp add: demo_seeded_def mset_rotate)

lemma demo_rng_seeded:
  "0 \<le> seed \<Longrightarrow> seed < 2 ^ 32 \<Longrightarrow> demo_rng (Some seed) k = Inr (demo_seeded seed k)"
  by (simp add: demo_rng_def pandas_rng_def)

lemma demo_rng_42: "demo_rng (Some 42) k = Inr (demo_seeded 42 k)"
  by (rule demo_rng_seeded) simp_all

lemma demo_rng_permutation: "is_permutation (demo_rng (Some 42) k) k"
  by (simp add: demo_rng_42 is_permutation_def demo_seeded_permutation)

lemma sizes_6_4: "map (\<lambda>i. min 2 (6 - i * 2)) [0..<4] = [2, 2, 2, 0::nat]"
  by code_simp

lemma sizes_23_5: "map (\<lambda>i. min 5 (23 - i * 5)) [0..<5] = [5, 5, 5, 5, 3::nat]"
  by code_simp

lemma ceil_div_6_4: "ceil_div 6 4 = 2" and ceil_div_23_5: "ceil_div 23 5 = 5"
  by (simp_all add: ceil_div_def)

lemma length_add_row_number: "length (add_row_number t) = length t"
  by (simp add: add_row_number_def del: upt_Suc)

lemma length_passengers: "length (passengers k) = k"
  by (simp add: passengers_def)

lemma ingested_titanic: "ingested k ''titanic'' = Some (add_row_number (passengers k))"
  by (simp add: ingested_def)

text \<open>
  Claim C10. For every table of \<open>R\<close> rows and every \<open>n \<ge> 1\<close>, \<^verbatim>\<open>create_random_samples\<close>
  returns (no error) exactly \<open>n\<close> samples, with their sizes. Every sample whose offset
  \<open>i * ceil(R / n)\<close> lies at or beyond \<open>R\<close> is an empty frame; when
  \<open>(n - 1) * ceil(R / n) \<ge> R\<close> the last sample is one of them. Six rows in four samples
  have the sizes \<open>[2, 2, 2, 0]\<close>.
\<close>

theorem partition_returns_n_samples:
  assumes "con ''titanic'' = Some T" and "1 \<le> n"
    and "is_permutation (rng (Some seed) (length T)) (length T)"
  shows "\<exists>samples sizes.
     create_random_samples rng con n seed = (Inr (samples, sizes), con) \<and>
     length samples = nat n \<and> sizes = map length samples \<and>
     (\<forall>i < nat n. length T \<le> i * rows_per_sample (length T) n \<longrightarrow> samples ! i = []) \<and>
     (length T \<le> (nat n - 1) * rows_per_sample (length T) n \<longrightarrow> last samples = []) \<and>
     (length T = 6 \<and> n = 4 \<longrightarrow> sizes = [2, 2, 2, 0])"
proof -
  obtain p where p: "rng (Some seed) (length T) = Inr p" "mset p = mset [0..<length T]"
    using assms(3) by (rule is_permutation_drawn)
  define c where "c = rows_per_sample (length T) n"
  define S where "S = shuffled p T"
  define samples where "samples = map (chunk S c) [0..<nat n]"
  define sizes where "sizes = map (\<lambda>i. length (chunk S c i)) [0..<nat n]"
  have lenS: "length S = length T"
    unfolding S_def using p(2) by (rule length_shuffled)
  have run: "create_random_samples rng con n seed = (Inr (samples, sizes), con)"
    unfolding samples_def sizes_def S_def c_def
    using assms(1,2) p(1) by (rule partition_result)
  have len: "length samples = nat n" by (simp add: samples_def)
  have sz: "sizes = map length samples" by (simp add: samples_def sizes_def o_def)
  have empty: "samples ! i = []" if "i < nat n" and "length T \<le> i * c" for i
    using that by (simp add: samples_def chunk_def lenS)
  have lst: "last samples = []" if "length T \<le> (nat n - 1) * c"
  proof -
    have n: "nat n - 1 < nat n" using assms(2) by simp
    have "samples \<noteq> []" using assms(2) len by auto
    then have "last samples = samples ! (nat n - 1)" by (simp add: last_conv_nth len)
    then show ?thesis using empty [OF n that] by simp
  qed
  have ex: "sizes = [2, 2, 2, 0]" if "length T = 6" and "n = 4"
  proof -
    have "c = 2" using that by (simp add: c_def rows_per_sample_def ceil_div_6_4)
    then show ?thesis using that sizes_6_4 by (simp add: sizes_def length_chunk lenS)
  qed
  show ?thesis
  proof (intro exI conjI allI impI)
    show "create_random_samples rng con n seed = (Inr (samples, sizes), con)" by (rule run)
    show "length samples = nat n" by (rule len)
    show "sizes = map length samples" by (rule sz)
    show "samples ! i = []"
      if "i < nat n" and "length T \<le> i * rows_per_sample (length T) n" for i
      using that empty unfolding c_def by simp
    show "last samples = []" if "length T \<le> (nat n - 1) * rows_per_sample (length T) n"
      using that lst unfolding c_def by simp
    show "sizes = [2, 2, 2, 0]" if "length T = 6 \<and> n = 4"
      using that ex by simp
  qed
qed

text \<open>
  The instance of C10 at six ingested passengers, four samples and seed 42.
\<close>

theorem partition_returns_n_samples_witness:
  "ingested 6 ''titanic'' = Some (add_row_number (passengers 6)) \<and> (1::int) \<le> 4 \<and>
   is_permutation (demo_rng (Some 42) (length (add_row_number (passengers 6))))
     (length (add_row_number (passengers 6))) \<and>
   (\<exists>samples. create_random_samples demo_rng (ingested 6) 4 42 =
        (Inr (samples, [2, 2, 2, 0]), ingested 6) \<and>
      length samples = 4 \<and> last samples = [])"
proof -
  have l: "length (add_row_number (passengers 6)) = 6"
    by (simp add: length_add_row_number length_passengers)
  have r: "rows_per_sample 6 4 = 2"
    by (simp add: rows_per_sample_def ceil_div_6_4)
  obtain samples sizes where
    "create_random_samples demo_rng (ingested 6) 4 42 = (Inr (samples, sizes), ingested 6)"
    and "length samples = nat 4"
    and "length (add_row_number (passengers 6)) \<le>
           (nat 4 - 1) * rows_per_sample (length (add_row_number (passengers 6))) 4
         \<longrightarrow> last samples = []"
    and "length (add_row_number (passengers 6)) = 6 \<and> (4::int) = 4 \<longrightarrow> sizes = [2, 2, 2, 0]"
    using partition_returns_n_samples
      [where con = "ingested 6" and T = "add_row_number (passengers 6)" and n = 4
         and rng = demo_rng and seed = 42]
    by (auto simp: ingested_titanic demo_rng_permutation)
  then show ?thesis
    using l r by (auto simp: ingested_titanic demo_rng_permutation)
qed

text \<open>
  Claim C1, as amended. For every table of \<open>R\<close> rows and every \<open>n \<ge> 1\<close>, with
  \<open>c = ceil(R / n)\<close>, the call returns \<open>n\<close> samples and their lengths as sizes. Sample
  \<open>i\<close> (from 0) is the \<open>i\<close>-th slice of \<open>c\<close> rows of the shuffled frame, which has \<open>R\<close>
  rows, and of the samples laid end to end: it has \<open>min c (R - i * c)\<close> rows, the difference
  cut off at 0. So no sample has more than \<open>c\<close> rows and the sizes add up to \<open>R\<close>; the
  full chunks come first, then what is left. 23 rows in 5 samples have the sizes
  \<open>[5, 5, 5, 5, 3]\<close>.
\<close>

theorem partition_sample_sizes:
  assumes "con ''titanic'' = Some T" and "1 \<le> n"
    and "is_permutation (rng (Some seed) (length T)) (length T)"
  shows "\<exists>p samples sizes.
     rng (Some seed) (length T) = Inr p \<and>
     create_random_samples rng con n seed = (Inr (samples, sizes), con) \<and>
     length samples = nat n \<and>
     sizes = map length samples \<and>
     (\<forall>i < nat n. samples ! i =
        take (rows_per_sample (length T) n)
          (drop (i * rows_per_sample (length T) n) (shuffled p T))) \<and>
     length (shuffled p T) = length T \<and>
     (\<forall>i < nat n. length (samples ! i) =
        min (rows_per_sample (length T) n) (length T - i * rows_per_sample (length T) n)) \<and>
     (\<forall>i < nat n. samples ! i =
        take (rows_per_sample (length T) n)
          (drop (i * rows_per_sample (length T) n) (concat samples))) \<and>
     length (concat samples) = length T \<and>
     sizes = map (\<lambda>i. min (rows_per_sample (length T) n)
                        (length T - i * rows_per_sample (length T) n)) [0..<nat n] \<and>
     (\<forall>z \<in> set sizes. z \<le> rows_per_sample (length T) n) \<and>
     sum_list sizes = length T \<and>
     (length T = 23 \<and> n = 5 \<longrightarrow> sizes = [5, 5, 5, 5, 3])"
proof -
  obtain p where p: "rng (Some seed) (length T) = Inr p" "mset p = mset [0..<length T]"
    using assms(3) by (rule is_permutation_drawn)
  define c where "c = rows_per_sample (length T) n"
  define S where "S = shuffled p T"
  define samples where "samples = map (chunk S c) [0..<nat n]"
  define sizes where "sizes = map (\<lambda>i. length (chunk S c i)) [0..<nat n]"
  have lenS: "length S = length T"
    unfolding S_def using p(2) by (rule length_shuffled)
  have run: "create_random_samples rng con n seed = (Inr (samples, sizes), con)"
    unfolding samples_def sizes_def S_def c_def
    using assms(1,2) p(1) by (rule partition_result)
  have len: "length samples = nat n" by (simp add: samples_def)
  have sz: "sizes = map length samples" by (simp add: samples_def sizes_def o_def)
  have cat: "concat samples = S"
    unfolding samples_def S_def c_def using assms(2) p(2) by (rule concat_samples_shuffled)
  have rows: "length (samples ! i) = min c (length T - i * c)" if "i < nat n" for i
    using that by (simp add: samples_def length_chunk lenS)
  have slice: "samples ! i = take c (drop (i * c) (concat samples))" if "i < nat n" for i
    unfolding cat using that by (simp add: samples_def chunk_def)
  have formula: "sizes = map (\<lambda>i. min c (length T - i * c)) [0..<nat n]"
    by (simp add: sizes_def length_chunk lenS)
  have bound: "z \<le> c" if "z \<in> set sizes" for z
    using that by (auto simp: formula)
  have "sum_list sizes = length (concat samples)"
    by (simp add: sz length_concat)
  then have total: "sum_list sizes = length T"
    by (simp add: cat lenS)
  have ex: "sizes = [5, 5, 5, 5, 3]" if "length T = 23" and "n = 5"
  proof -
    have "c = 5" using that by (simp add: c_def rows_per_sample_def ceil_div_23_5)
    then show ?thesis using that sizes_23_5 by (simp add: formula)
  qed
  have frame: "samples ! i = take c (drop (i * c) S)" if "i < nat n" for i
    using that by (simp add: samples_def chunk_def)
  show ?thesis
  proof (intro exI conjI ballI allI impI)
    show "rng (Some seed) (length T) = Inr p" by (rule p(1))
    show "samples ! i =
        take (rows_per_sample (length T) n)
          (drop (i * rows_per_sample (length T) n) (shuffled p T))"
      if "i < nat n" for i
      using frame [OF that] unfolding c_def S_def .
    show "length (shuffled p T) = length T" using lenS unfolding S_def .
    show "create_random_samples rng con n seed = (Inr (samples, sizes), con)" by (rule run)
    show "length samples = nat n" by (rule len)
    show "sizes = map length samples" by (rule sz)
    show "length (samples ! i) =
        min (rows_per_sample (length T) n) (length T - i * rows_per_sample (length T) n)"
      if "i < nat n" for i
      using rows [OF that] unfolding c_def .
    show "samples ! i =
        take (rows_per_sample (length T) n)
          (drop (i * rows_per_sample (length T) n) (concat samples))"
      if "i < nat n" for i
      using slice [OF that] unfolding c_def .
    show "length (concat samples) = length T" by (simp add: cat lenS)
    show "sizes = map (\<lambda>i. min (rows_per_sample (length T) n)
                        (length T - i * rows_per_sample (length T) n)) [0..<nat n]"
      using formula unfolding c_def .
    show "z \<le> rows_per_sample (length T) n" if "z \<in> set sizes" for z
      using bound [OF that] unfolding c_def .
    show "sum_list sizes = length T" by (rule total)
    show "sizes = [5, 5, 5, 5, 3]" if "length T = 23 \<and> n = 5"
      using that ex by simp
  qed
qed

text \<open>
  The instance of C1 at 23 ingested passengers, five samples and seed 42.
\<close>

theorem partition_sample_sizes_witness:
  "ingested 23 ''titanic'' = Some (add_row_number (passengers 23)) \<and> (1::int) \<le> 5 \<and>
   is_permutation (demo_rng (Some 42) (length (add_row_number (passengers 23))))
     (length (add_row_number (passengers 23))) \<and>
   (\<exists>samples. create_random_samples demo_rng (ingested 23) 5 42 =
        (Inr (samples, [5, 5, 5, 5, 3]), ingested 23) \<and>
      map length samples = [5, 5, 5, 5, 3] \<and> length (concat samples) = 23)"
proof -
  have l: "length (add_row_number (passengers 23)) = 23"
    by (simp add: length_add_row_number length_passengers)
  obtain p samples sizes where
    "create_random_samples demo_rng (ingested 23) 5 42 = (Inr (samples, sizes), ingested 23)"
    and "sizes = map length samples"
    and "length (concat samples) = length (add_row_number (passengers 23))"
    and "length (add_row_number (passengers 23)) = 23 \<and> (5::int) = 5
           \<longrightarrow> sizes = [5, 5, 5, 5, 3]"
    using partition_sample_sizes
      [where con = "ingested 23" and T = "add_row_number (passengers 23)" and n = 5
         and rng = demo_rng and seed = 42]
    by (auto simp: ingested_titanic demo_rng_permutation)
  then show ?thesis
    using l by (auto simp: ingested_titanic demo_rng_permutation)
qed

text \<open>
  Claim C1 as the specification states it fails there: the sizes, and the lengths of the
  samples, are not \<open>[5, 5, 5, 4, 4]\<close>, and the largest and the smallest differ by two.
\<close>

theorem partition_balance_counterexample:
  "map_sum id snd (fst (create_random_samples demo_rng (ingested 23) 5 42))
     = Inr [5, 5, 5, 5, 3] \<and>
   map_sum id (map length \<circ> fst) (fst (create_random_samples demo_rng (ingested 23) 5 42))
     = Inr [5, 5, 5, 5, 3] \<and>
   [5, 5, 5, 5, 3] \<noteq> [5, 5, 5, 4, 4::nat] \<and>
   \<not> Max (set [5, 5, 5, 5, 3::nat]) - Min (set [5, 5, 5, 5, 3]) \<le> 1"
proof -
  let ?T = "add_row_number (passengers 23)"
  have l: "length ?T = 23"
    by (simp add: length_add_row_number length_passengers)
  have "create_random_samples demo_rng (ingested 23) 5 42 =
    (Inr (map (chunk (shuffled (demo_seeded 42 (length ?T)) ?T)
                 (rows_per_sample (length ?T) 5)) [0..<nat 5],
          map (\<lambda>i. length (chunk (shuffled (demo_seeded 42 (length ?T)) ?T)
                 (rows_per_sample (length ?T) 5) i))
            [0..<nat 5]),
     ingested 23)"
    by (rule partition_result) (simp_all add: ingested_titanic demo_rng_42)
  moreover have "rows_per_sample 23 5 = 5"
    by (simp add: rows_per_sample_def ceil_div_23_5)
  moreover have "length (shuffled (demo_seeded 42 (length ?T)) ?T) = 23"
    by (simp add: length_shuffled demo_seeded_permutation l)
  ultimately show ?thesis
    using sizes_23_5 by (simp add: l length_chunk o_def)
qed

section \<open>Arguments that are not positive\<close>

lemma create_random_samples_zero:
  "con ''titanic'' = Some T \<Longrightarrow>
   create_random_samples rng con 0 seed = (Inl ZeroDivisionError, con)"
  by (simp add: create_random_samples_def)

lemma create_random_samples_negative:
  assumes "con ''titanic'' = Some T" and "n < 0" and "rng (Some seed) (length T) = Inr p"
  shows "create_random_samples rng con n seed = (Inr ([], []), con)"
  using assms
  by (simp add: create_random_samples_def Let_def sample_frac1_def length_fetchdf
      py_range_nonpos)

lemma create_random_samples_rejected:
  assumes "con ''titanic'' = Some T" and "n \<noteq> 0" and "rng (Some seed) (length T) = Inl e"
  shows "create_random_samples rng con n seed = (Inl e, con)"
  using assms
  by (simp add: create_random_samples_def Let_def sample_frac1_def length_fetchdf)

lemma create_random_samples_errors:
  "fst (create_random_samples (pandas_rng seeded unseeded entropy) con n seed) = Inl e
   \<Longrightarrow> e = CatalogException \<or> e = ZeroDivisionError \<or> e = ValueError"
  by (auto simp: create_random_samples_def Let_def sample_frac1_def pandas_rng_def
      split: option.splits if_splits sum.splits)

text \<open>
  Claim C4, as amended. With \<open>n_sample = 0\<close> the call fails with ZeroDivisionError, raised by
  the division after the rows are counted and before they are fetched or shuffled, whatever
  the seed. With \<open>n_sample < 0\<close> no argument is checked and the shuffle runs: where it draws
  (pandas: a seed within \<open>0 .. 2\<^sup>3\<^sup>2 - 1\<close>) the loop does not run and the call returns no
  samples and no sizes; where it raises (pandas: ValueError for any other seed) the call
  fails with that exception. No call fails with InvalidArgument.
\<close>

theorem partition_nonpositive_n:
  assumes "con ''titanic'' = Some T"
  shows "create_random_samples rng con 0 seed = (Inl ZeroDivisionError, con) \<and>
     (n < 0 \<and> rng (Some seed) (length T) = Inr p \<longrightarrow>
        create_random_samples rng con n seed = (Inr ([], []), con)) \<and>
     (n < 0 \<and> rng (Some seed) (length T) = Inl e \<longrightarrow>
        create_random_samples rng con n seed = (Inl e, con)) \<and>
     (n < 0 \<and> 0 \<le> seed \<and> seed < 2 ^ 32 \<longrightarrow>
        create_random_samples (pandas_rng seeded unseeded entropy) con n seed
          = (Inr ([], []), con)) \<and>
     (n < 0 \<and> (seed < 0 \<or> 2 ^ 32 \<le> seed) \<longrightarrow>
        create_random_samples (pandas_rng seeded unseeded entropy) con n seed
          = (Inl ValueError, con)) \<and>
     fst (create_random_samples (pandas_rng seeded unseeded entropy) con m seed)
       \<noteq> Inl InvalidArgument"
proof (intro conjI impI)
  show "create_random_samples rng con 0 seed = (Inl ZeroDivisionError, con)"
    using assms by (rule create_random_samples_zero)
  show "create_random_samples rng con n seed = (Inr ([], []), con)"
    if "n < 0 \<and> rng (Some seed) (length T) = Inr p"
    using assms that by (simp add: create_random_samples_negative)
  show "create_random_samples rng con n seed = (Inl e, con)"
    if "n < 0 \<and> rng (Some seed) (length T) = Inl e"
    using assms that by (simp add: create_random_samples_rejected)
  show "create_random_samples (pandas_rng seeded unseeded entropy) con n seed
          = (Inr ([], []), con)"
    if "n < 0 \<and> 0 \<le> seed \<and> seed < 2 ^ 32"
  proof -
    have "pandas_rng seeded unseeded entropy (Some seed) (length T) = Inr (seeded seed (length T))"
      using that by (simp add: pandas_rng_def)
    with assms that show ?thesis by (simp add: create_random_samples_negative)
  qed
  show "create_random_samples (pandas_rng seeded unseeded entropy) con n seed
          = (Inl ValueError, con)"
    if "n < 0 \<and> (seed < 0 \<or> 2 ^ 32 \<le> seed)"
  proof -
    have "pandas_rng seeded unseeded entropy (Some seed) (length T) = Inl ValueError"
      using that by (auto simp: pandas_rng_def)
    with assms that show ?thesis by (simp add: create_random_samples_rejected)
  qed
  show "fst (create_random_samples (pandas_rng seeded unseeded entropy) con m seed)
       \<noteq> Inl InvalidArgument"
    using create_random_samples_errors [of seeded unseeded entropy con m seed InvalidArgument]
    by auto
qed

text \<open>
  The instance of C4 at three ingested passengers: \<open>n_sample = 0\<close>, and \<open>n_sample = - 2\<close> with
  the seeds 42 and \<open>- 1\<close>.
\<close>

theorem partition_nonpositive_n_witness:
  "ingested 3 ''titanic'' = Some (add_row_number (passengers 3)) \<and>
   create_random_samples demo_rng (ingested 3) 0 42 = (Inl ZeroDivisionError, ingested 3) \<and>
   (- 2 :: int) < 0 \<and> (0::int) \<le> 42 \<and> (42::int) < 2 ^ 32 \<and>
   create_random_samples demo_rng (ingested 3) (- 2) 42 = (Inr ([], []), ingested 3) \<and>
   ((- 1 :: int) < 0 \<or> (2::int) ^ 32 \<le> - 1) \<and>
   create_random_samples demo_rng (ingested 3) (- 2) (- 1) = (Inl ValueError, ingested 3)"
proof -
  note accepted = partition_nonpositive_n
    [where con = "ingested 3" and T = "add_row_number (passengers 3)" and n = "- 2"
       and seed = 42 and rng = demo_rng and seeded = demo_seeded and unseeded = demo_unseeded
       and entropy = "1::nat", OF ingested_titanic]
  note rejected = partition_nonpositive_n
    [where con = "ingested 3" and T = "add_row_number (passengers 3)" and n = "- 2"
       and seed = "- 1" and rng = demo_rng and seeded = demo_seeded
       and unseeded = demo_unseeded and entropy = "1::nat", OF ingested_titanic]
  from accepted have
    "create_random_samples demo_rng (ingested 3) 0 42 = (Inl ZeroDivisionError, ingested 3)"
    and "create_random_samples demo_rng (ingested 3) (- 2) 42 = (Inr ([], []), ingested 3)"
    unfolding demo_rng_def by simp_all
  moreover from rejected have
    "create_random_samples demo_rng (ingested 3) (- 2) (- 1) = (Inl ValueError, ingested 3)"
    unfolding demo_rng_def by simp
  ultimately show ?thesis by (simp add: ingested_titanic)
qed

text \<open>
  Claim C4 as the specification states it fails there: \<open>n_sample = - 1\<close> returns a result,
  and the error of \<open>n_sample = 0\<close> is not InvalidArgument.
\<close>

theorem partition_invalid_argument_counterexample:
  "fst (create_random_samples demo_rng (ingested 3) (- 1) 42) = Inr ([], []) \<and>
   fst (create_random_samples demo_rng (ingested 3) (- 1) 42) \<noteq> Inl InvalidArgument \<and>
   fst (create_random_samples demo_rng (ingested 3) 0 42) = Inl ZeroDivisionError \<and>
   fst (create_random_samples demo_rng (ingested 3) 0 42) \<noteq> Inl InvalidArgument"
proof -
  have "create_random_samples demo_rng (ingested 3) (- 1) 42 = (Inr ([], []), ingested 3)"
    using ingested_titanic by (rule create_random_samples_negative) (simp_all add: demo_rng_42)
  moreover
  have "create_random_samples demo_rng (ingested 3) 0 42 = (Inl ZeroDivisionError, ingested 3)"
    using ingested_titanic by (rule create_random_samples_zero)
  ultimately show ?thesis by simp
qed

section \<open>Determinism\<close>

text \<open>
  Claim C3. The call passes \<^verbatim>\<open>random_state=RANDOM_SEED\<close>, so pandas draws from a generator
  seeded with it and never from numpy's global generator: whatever the entropy behind the
  global generator is, two calls on databases with the same table \<^verbatim>\<open>titanic\<close>, with the same
  \<open>n_sample\<close> and seed, return the same samples in the same buckets, the same sizes, or the
  same exception. For \<open>n \<ge> 1\<close> and a seed in range the samples are the chunks of the frame
  shuffled by the seeded draw for the seed and the row count.
\<close>

theorem partition_deterministic:
  assumes "con1 ''titanic'' = con2 ''titanic''"
  shows "fst (create_random_samples (pandas_rng seeded unseeded entropy1) con1 n seed) =
         fst (create_random_samples (pandas_rng seeded unseeded entropy2) con2 n seed) \<and>
     (con1 ''titanic'' = Some T \<and> 1 \<le> n \<and> 0 \<le> seed \<and> seed < 2 ^ 32 \<longrightarrow>
        fst (create_random_samples (pandas_rng seeded unseeded entropy1) con1 n seed) =
          Inr (map (chunk (shuffled (seeded seed (length T)) T) (rows_per_sample (length T) n))
                 [0..<nat n],
               map (\<lambda>i. length (chunk (shuffled (seeded seed (length T)) T)
                                (rows_per_sample (length T) n) i))
                 [0..<nat n]))"
proof (intro conjI impI)
  show "fst (create_random_samples (pandas_rng seeded unseeded entropy1) con1 n seed) =
         fst (create_random_samples (pandas_rng seeded unseeded entropy2) con2 n seed)"
    using assms
    by (simp add: create_random_samples_def Let_def sample_frac1_def pandas_rng_def
        split: option.split)
next
  assume a: "con1 ''titanic'' = Some T \<and> 1 \<le> n \<and> 0 \<le> seed \<and> seed < 2 ^ 32"
  then have "pandas_rng seeded unseeded entropy1 (Some seed) (length T)
               = Inr (seeded seed (length T))"
    by (simp add: pandas_rng_def)
  with a have "create_random_samples (pandas_rng seeded unseeded entropy1) con1 n seed =
      (Inr (map (chunk (shuffled (seeded seed (length T)) T) (rows_per_sample (length T) n))
              [0..<nat n],
            map (\<lambda>i. length (chunk (shuffled (seeded seed (length T)) T)
                             (rows_per_sample (length T) n) i))
              [0..<nat n]),
       con1)"
    by (intro partition_result) simp_all
  then show "fst (create_random_samples (pandas_rng seeded unseeded entropy1) con1 n seed) =
          Inr (map (chunk (shuffled (seeded seed (length T)) T) (rows_per_sample (length T) n))
                 [0..<nat n],
               map (\<lambda>i. length (chunk (shuffled (seeded seed (length T)) T)
                                (rows_per_sample (length T) n) i))
                 [0..<nat n])"
    by simp
qed

text \<open>
  The instance of C3 at six ingested passengers: two entropies under which an unseeded draw
  differs, two databases that agree on the table. The seeded draw reverses the six rows.
\<close>

theorem partition_deterministic_witness:
  "(ingested 6) ''titanic'' = ((ingested 6)(''log'' \<mapsto> [])) ''titanic'' \<and>
   pandas_rng demo_seeded demo_unseeded (1::nat) None 6
     \<noteq> pandas_rng demo_seeded demo_unseeded 2 None 6 \<and>
   fst (create_random_samples (pandas_rng demo_seeded demo_unseeded (1::nat)) (ingested 6) 4 42) =
     fst (create_random_samples (pandas_rng demo_seeded demo_unseeded 2)
            ((ingested 6)(''log'' \<mapsto> [])) 4 42) \<and>
   map_sum id (map (map (row_id \<circ> snd)) \<circ> fst)
     (fst (create_random_samples (pandas_rng demo_seeded demo_unseeded (1::nat)) (ingested 6) 4 42))
     = Inr [[Some 6, Some 5], [Some 4, Some 3], [Some 2, Some 1], []]"
proof -
  have same: "(ingested 6) ''titanic'' = ((ingested 6)(''log'' \<mapsto> [])) ''titanic''"
    by simp
  have differ: "pandas_rng demo_seeded demo_unseeded (1::nat) None 6
     \<noteq> pandas_rng demo_seeded demo_unseeded 2 None 6"
    by code_simp
  have buckets: "map_sum id (map (map (row_id \<circ> snd)) \<circ> fst)
     (fst (create_random_samples (pandas_rng demo_seeded demo_unseeded (1::nat)) (ingested 6) 4 42))
     = Inr [[Some 6, Some 5], [Some 4, Some 3], [Some 2, Some 1], []]"
    by code_simp
  have "fst (create_random_samples (pandas_rng demo_seeded demo_unseeded (1::nat)) (ingested 6) 4 42) =
     fst (create_random_samples (pandas_rng demo_seeded demo_unseeded 2)
            ((ingested 6)(''log'' \<mapsto> [])) 4 42)"
    using partition_deterministic
      [where ?con1.0 = "ingested 6" and ?con2.0 = "(ingested 6)(''log'' \<mapsto> [])"
         and seeded = demo_seeded and unseeded = demo_unseeded and ?entropy1.0 = "1::nat"
         and ?entropy2.0 = "2::nat" and n = 4 and seed = 42, OF same]
    by blast
  then show ?thesis
    using same differ buckets by (intro conjI)
qed

section \<open>The round trip\<close>

lemma map_snd_insort_key:
  "map snd (insort_key (\<lambda>(l, r). k r) x xs) = insort_key k (snd x) (map snd xs)"
  by (induction xs) (auto simp: case_prod_beta)

lemma map_snd_sort_key:
  "map snd (sort_key (\<lambda>(l, r). k r) df) = sort_key k (map snd df)"
  by (induction df) (simp_all add: map_snd_insort_key)

lemma count_list_concat:
  "count_list (concat xss) x = (\<Sum>xs\<leftarrow>xss. count_list xs x)"
  by (induction xss) simp_all

lemma row_id_Some: "row_id r = Some i \<longleftrightarrow> col ''id'' r = Some (IntV i)"
  by (auto simp: row_id_def split: option.splits scalar.splits)

lemma has_ids_row: "has_ids T \<Longrightarrow> r \<in> set T \<Longrightarrow> \<exists>i. row_id r = Some i"
  by (auto simp: has_ids_def list_all_iff)

lemma id_sort_key_int: "row_id r = Some i \<Longrightarrow> id_sort_key r = (0, of_int i, [])"
  by (simp add: row_id_Some id_sort_key_def)

lemma id_sort_key_has_ids:
  assumes "has_ids T" and "r \<in> set T"
  shows "id_sort_key r = (0, of_int (the (row_id r)), [])"
proof -
  obtain i where "row_id r = Some i" using has_ids_row [OF assms] by blast
  then show ?thesis by (simp add: id_sort_key_int)
qed

lemma distinct_ids_inj:
  assumes "has_ids T" and "distinct (map row_id T)"
  shows "inj_on (\<lambda>r. the (row_id r)) (set T)"
proof (rule inj_onI)
  fix x y assume x: "x \<in> set T" and y: "y \<in> set T" and e: "the (row_id x) = the (row_id y)"
  obtain i j where "row_id x = Some i" "row_id y = Some j"
    using has_ids_row [OF assms(1) x] has_ids_row [OF assms(1) y] by blast
  with e have "row_id x = row_id y" by simp
  moreover have "inj_on row_id (set T)" using assms(2) by (simp add: distinct_map)
  ultimately show "x = y" using x y by (auto dest: inj_onD)
qed

lemma distinct_ids_keys:
  assumes "has_ids T" and "distinct (map row_id T)"
  shows "distinct (map (\<lambda>r. the (row_id r)) T)"
  using assms distinct_ids_inj [OF assms] by (simp add: distinct_map)

lemma ids_ascending_has_ids: "ids_ascending T \<Longrightarrow> has_ids T"
  by (simp add: ids_ascending_def)

lemma ids_ascending_sorted:
  "ids_ascending T \<Longrightarrow> sorted (map (\<lambda>r. the (row_id r)) T)"
  by (simp add: ids_ascending_def strict_sorted_iff)

lemma ids_ascending_distinct:
  assumes "ids_ascending T"
  shows "distinct (map row_id T)"
proof -
  have inj: "inj_on (\<lambda>r. the (row_id r)) (set T)" and d: "distinct T"
    using assms by (simp_all add: ids_ascending_def strict_sorted_iff distinct_map)
  have "inj_on row_id (set T)"
  proof (rule inj_onI)
    fix x y assume "x \<in> set T" "y \<in> set T" "row_id x = row_id y"
    then have "x \<in> set T" "y \<in> set T" "the (row_id x) = the (row_id y)" by simp_all
    with inj show "x = y" by (auto dest: inj_onD)
  qed
  with d show ?thesis by (simp add: distinct_map)
qed

lemma ids_ascending_iff:
  assumes "has_ids T" and "distinct (map row_id T)"
  shows "ids_ascending T \<longleftrightarrow> sorted (map (\<lambda>r. the (row_id r)) T)"
  using assms distinct_ids_keys [OF assms] by (simp add: ids_ascending_def strict_sorted_iff)

lemma sort_values_id_has_ids:
  assumes "has_ids (map snd S)"
  shows "sort_values_id S = Inr (sort_key (\<lambda>(l, r). id_sort_key r) S)"
proof -
  have cell: "\<exists>i. col ''id'' (snd x) = Some (IntV i)" if "x \<in> set S" for x
  proof -
    have "snd x \<in> set (map snd S)" using that by simp
    then obtain i where "row_id (snd x) = Some i" using has_ids_row [OF assms] by blast
    then show ?thesis by (auto simp: row_id_Some)
  qed
  have "None \<notin> set (map (\<lambda>(l, r). col ''id'' r) S)"
    using cell by (fastforce simp: case_prod_beta)
  moreover have "\<not> list_ex (\<lambda>c. is_string (the c)) (map (\<lambda>(l, r). col ''id'' r) S)"
    using cell by (fastforce simp: list_ex_iff case_prod_beta is_string_def)
  ultimately show ?thesis by (simp add: sort_values_id_def Let_def)
qed

lemma sorted_id_sort_key:
  assumes "has_ids ys" and "sorted (map (\<lambda>r. the (row_id r)) ys)"
  shows "sorted (map id_sort_key ys)"
proof -
  have eq: "map id_sort_key ys = map (\<lambda>r. (0::nat, rat_of_int (the (row_id r)), ''''::string)) ys"
  proof (rule map_cong [OF refl])
    fix r assume "r \<in> set ys"
    with assms(1) show "id_sort_key r = (0, rat_of_int (the (row_id r)), [])"
      by (rule id_sort_key_has_ids)
  qed
  have "sorted (map (\<lambda>r. (0::nat, rat_of_int (the (row_id r)), ''''::string)) ys)"
    using assms(2) unfolding sorted_map
    by (rule sorted_wrt_mono_rel [rotated]) (simp add: less_eq_prod_def)
  then show ?thesis by (simp only: eq)
qed

lemma sort_by_id_sort_key:
  assumes S: "mset S = mset T" and "has_ids T" and "distinct (map row_id T)"
  shows "sort_key id_sort_key S = sort_key (\<lambda>r. the (row_id r)) T"
proof (rule sort_key_inj_key_eq)
  let ?ys = "sort_key (\<lambda>r. the (row_id r)) T"
  have set: "set S = set T" using S by (rule mset_eq_setD)
  show "mset S = mset ?ys" using S by simp
  show "inj_on id_sort_key (set S)"
  proof (rule inj_onI)
    fix x y assume x: "x \<in> set S" and y: "y \<in> set S" and e: "id_sort_key x = id_sort_key y"
    then have "x \<in> set T" "y \<in> set T" using set by simp_all
    moreover from this e have "the (row_id x) = the (row_id y)"
      by (simp add: id_sort_key_has_ids [OF assms(2)])
    ultimately show "x = y" using distinct_ids_inj [OF assms(2,3)] by (auto dest: inj_onD)
  qed
  have "has_ids ?ys" using assms(2) by (simp add: has_ids_def list_all_iff)
  then show "sorted (map id_sort_key ?ys)"
    by (rule sorted_id_sort_key) (rule sorted_sort_key)
qed

lemma fetchdf_eq_iff: "fetchdf T = fetchdf U \<longleftrightarrow> T = U"
  by (metis map_snd_fetchdf)

lemma concat_samples_sorted:
  assumes S: "mset (map snd S) = mset T" and "has_ids T" and "distinct (map row_id T)"
    and "frames \<noteq> []" and "concat frames = S"
  shows "concat_samples frames = Inr (fetchdf (sort_key (\<lambda>r. the (row_id r)) T))"
proof -
  have len: "length S = length T"
    using S by (metis length_map size_mset)
  have "set (map snd S) = set T" using S by (rule mset_eq_setD)
  then have ids: "has_ids (map snd S)"
    using assms(2) by (simp add: has_ids_def list_all_iff)
  have "map snd (sort_key (\<lambda>(l, r). id_sort_key r) S) = sort_key id_sort_key (map snd S)"
    by (rule map_snd_sort_key)
  also have "\<dots> = sort_key (\<lambda>r. the (row_id r)) T"
    using S assms(2,3) by (rule sort_by_id_sort_key)
  finally have "reset_index_drop (sort_key (\<lambda>(l, r). id_sort_key r) S)
      = fetchdf (sort_key (\<lambda>r. the (row_id r)) T)"
    by (simp add: reset_index_drop_def fetchdf_def len)
  then show ?thesis
    using assms(4,5) by (simp add: concat_samples_def pd_concat_def sort_values_id_has_ids [OF ids])
qed

lemma identical_ascending:
  assumes "con ''titanic'' = Some T" and "has_ids T" and "distinct (map row_id T)"
    and "concat_samples frames = Inr (fetchdf (sort_key (\<lambda>r. the (row_id r)) T))"
  shows "identical con frames = Inr (ids_ascending T)"
proof -
  have "T = sort_key (\<lambda>r. the (row_id r)) T \<longleftrightarrow> sorted (map (\<lambda>r. the (row_id r)) T)"
    by (metis sort_key_id_if_sorted sorted_sort_key)
  then have "(fetchdf T = fetchdf (sort_key (\<lambda>r. the (row_id r)) T)) = ids_ascending T"
    by (simp add: fetchdf_eq_iff ids_ascending_iff [OF assms(2,3)])
  then show ?thesis
    using assms(1,4) by (simp add: identical_def original_df_def)
qed

lemma partition_rows:
  assumes "con ''titanic'' = Some T" and "1 \<le> n"
    and "is_permutation (rng (Some seed) (length T)) (length T)"
  shows "\<exists>samples sizes.
     create_random_samples rng con n seed = (Inr (samples, sizes), con) \<and>
     length samples = nat n \<and>
     mset (map snd (concat samples)) = mset T"
proof -
  obtain p where p: "rng (Some seed) (length T) = Inr p" "mset p = mset [0..<length T]"
    using assms(3) by (rule is_permutation_drawn)
  let ?samples = "map (chunk (shuffled p T) (rows_per_sample (length T) n)) [0..<nat n]"
  have "concat ?samples = shuffled p T"
    using assms(2) p(2) by (rule concat_samples_shuffled)
  then have "mset (map snd (concat ?samples)) = mset T"
    using shuffled_rows_mset [OF p(2)] by simp
  moreover have "length ?samples = nat n" by simp
  moreover have "create_random_samples rng con n seed =
      (Inr (?samples, map (\<lambda>i. length (chunk (shuffled p T) (rows_per_sample (length T) n) i))
                        [0..<nat n]),
       con)"
    using assms(1,2) p(1) by (rule partition_result)
  ultimately show ?thesis by blast
qed

text \<open>
  Claim C2, as amended. For every table, \<open>n \<ge> 1\<close> and a seed for which pandas draws a
  permutation, the rows of the \<open>n\<close> samples are the rows of the table, and so are their
  identifiers, as multisets. Where no two rows share an identifier, each identifier of the
  table occurs once in one sample and in no other. Where moreover every row has an integer
  identifier, \<^verbatim>\<open>pd.concat(samples).sort_values('id').reset_index(drop=True)\<close> is the frame
  of the table's rows in ascending order of the identifier: it is the frame read from the
  table, and the notebook's cross-check answers yes, exactly when the table is stored in
  that order.
\<close>

theorem partition_round_trip:
  assumes "con ''titanic'' = Some T" and "1 \<le> n"
    and "is_permutation (rng (Some seed) (length T)) (length T)"
  shows "\<exists>samples sizes.
     create_random_samples rng con n seed = (Inr (samples, sizes), con) \<and>
     length samples = nat n \<and>
     mset (concat (map (map snd) samples)) = mset T \<and>
     mset (concat (map (map (\<lambda>(l, x). row_id x)) samples)) = mset (map row_id T) \<and>
     (distinct (map row_id T) \<longrightarrow>
        (\<forall>r \<in> set T.
           (\<Sum>s\<leftarrow>samples. count_list (map (\<lambda>(l, x). row_id x) s) (row_id r)) = 1)) \<and>
     (has_ids T \<and> distinct (map row_id T) \<longrightarrow>
        concat_samples samples = Inr (fetchdf (sort_key (\<lambda>r. the (row_id r)) T)) \<and>
        identical con samples = Inr (ids_ascending T)) \<and>
     (ids_ascending T \<longrightarrow>
        concat_samples samples = Inr (fetchdf T) \<and> identical con samples = Inr True)"
proof -
  obtain samples sizes where
    run: "create_random_samples rng con n seed = (Inr (samples, sizes), con)"
    and len: "length samples = nat n"
    and S: "mset (map snd (concat samples)) = mset T"
    using partition_rows [of con T n rng seed] assms by blast
  have all: "mset (concat (map (map snd) samples)) = mset T"
    using S by (simp add: map_concat)
  have idrows: "concat (map (map (\<lambda>(l, x). row_id x)) samples)
                  = map row_id (map snd (concat samples))"
    by (simp add: map_concat split_def o_def)
  have "mset (map row_id (map snd (concat samples))) = mset (map row_id T)"
    using S by (metis mset_map)
  then have ids: "mset (concat (map (map (\<lambda>(l, x). row_id x)) samples)) = mset (map row_id T)"
    by (simp only: idrows)
  have once: "(\<Sum>s\<leftarrow>samples. count_list (map (\<lambda>(l, x). row_id x) s) (row_id r)) = 1"
    if d: "distinct (map row_id T)" and r: "r \<in> set T" for r
  proof -
    have "(\<Sum>s\<leftarrow>samples. count_list (map (\<lambda>(l, x). row_id x) s) (row_id r)) =
            count_list (concat (map (map (\<lambda>(l, x). row_id x)) samples)) (row_id r)"
      by (simp add: count_list_concat o_def)
    also have "\<dots> = count (mset (concat (map (map (\<lambda>(l, x). row_id x)) samples))) (row_id r)"
      by (simp only: count_mset)
    also have "\<dots> = count (mset (map row_id T)) (row_id r)"
      by (simp only: ids)
    also have "\<dots> = 1"
      using d r by (simp add: distinct_count_atmost_1)
    finally show ?thesis .
  qed
  have nonempty: "samples \<noteq> []" using assms(2) len by auto
  have sorted: "concat_samples samples = Inr (fetchdf (sort_key (\<lambda>r. the (row_id r)) T))"
    if "has_ids T" and "distinct (map row_id T)"
    using S that nonempty refl by (rule concat_samples_sorted)
  have check: "identical con samples = Inr (ids_ascending T)"
    if "has_ids T" and "distinct (map row_id T)"
    using assms(1) that sorted [OF that] by (rule identical_ascending)
  have asc: "concat_samples samples = Inr (fetchdf T) \<and> identical con samples = Inr True"
    if a: "ids_ascending T"
  proof -
    have h: "has_ids T" and d: "distinct (map row_id T)"
      using a by (rule ids_ascending_has_ids, rule ids_ascending_distinct)
    have "sort_key (\<lambda>r. the (row_id r)) T = T"
      using ids_ascending_sorted [OF a] by (rule sort_key_id_if_sorted)
    then show ?thesis using sorted [OF h d] check [OF h d] a by simp
  qed
  show ?thesis
  proof (intro exI conjI impI ballI)
    show "create_random_samples rng con n seed = (Inr (samples, sizes), con)" by (rule run)
    show "length samples = nat n" by (rule len)
    show "mset (concat (map (map snd) samples)) = mset T" by (rule all)
    show "mset (concat (map (map (\<lambda>(l, x). row_id x)) samples)) = mset (map row_id T)"
      by (rule ids)
    show "(\<Sum>s\<leftarrow>samples. count_list (map (\<lambda>(l, x). row_id x) s) (row_id r)) = 1"
      if "distinct (map row_id T)" and "r \<in> set T" for r
      using that by (rule once)
    show "concat_samples samples = Inr (fetchdf (sort_key (\<lambda>r. the (row_id r)) T))"
      if "has_ids T \<and> distinct (map row_id T)"
      using that sorted by blast
    show "identical con samples = Inr (ids_ascending T)"
      if "has_ids T \<and> distinct (map row_id T)"
      using that check by blast
    show "concat_samples samples = Inr (fetchdf T)" if "ids_ascending T"
      using asc [OF that] by blast
    show "identical con samples = Inr True" if "ids_ascending T"
      using asc [OF that] by blast
  qed
qed

section \<open>Identifiers\<close>

lemma row_id_appended:
  assumes "col ''id'' r = None"
  shows "row_id (r @ [(row_number_column r, IntV k)]) = Some k"
  using assms by (simp add: row_id_def col_def map_add_def row_number_column_def)

lemma row_id_kept:
  assumes "col ''id'' r \<noteq> None"
  shows "row_id (r @ [(row_number_column r, IntV k)]) = row_id r"
  using assms by (auto simp: row_id_def col_def map_add_def row_number_column_def)

lemma nth_add_row_number:
  assumes "i < length t"
  shows "add_row_number t ! i = t ! i @ [(row_number_column (t ! i), IntV (int (Suc i)))]"
  using assms by (simp add: add_row_number_def nth_upt del: upt_Suc)

lemma row_ids_add_row_number:
  assumes "list_all (\<lambda>r. col ''id'' r = None) t"
  shows "map row_id (add_row_number t) = map (\<lambda>k. Some (int k)) [1..<Suc (length t)]"
proof (rule nth_equalityI)
  show "length (map row_id (add_row_number t)) = length (map (\<lambda>k. Some (int k)) [1..<Suc (length t)])"
    by (simp add: length_add_row_number del: upt_Suc)
next
  fix i assume "i < length (map row_id (add_row_number t))"
  then have i: "i < length t" by (simp add: length_add_row_number)
  then have "col ''id'' (t ! i) = None"
    using assms by (simp add: list_all_length)
  then have "row_id (add_row_number t ! i) = Some (int (Suc i))"
    using i by (simp only: nth_add_row_number row_id_appended)
  then show "map row_id (add_row_number t) ! i = map (\<lambda>k. Some (int k)) [1..<Suc (length t)] ! i"
    using i by (simp add: length_add_row_number nth_upt del: upt_Suc)
qed

lemma row_ids_kept:
  assumes "list_all (\<lambda>r. col ''id'' r \<noteq> None) t"
  shows "map row_id (add_row_number t) = map row_id t"
proof (rule nth_equalityI)
  show "length (map row_id (add_row_number t)) = length (map row_id t)"
    by (simp add: length_add_row_number)
next
  fix i assume "i < length (map row_id (add_row_number t))"
  then have i: "i < length t" by (simp add: length_add_row_number)
  then have "col ''id'' (t ! i) \<noteq> None"
    using assms by (simp add: list_all_length)
  then have "row_id (t ! i @ [(row_number_column (t ! i), IntV (int (Suc i)))]) = row_id (t ! i)"
    by (rule row_id_kept)
  then have "row_id (add_row_number t ! i) = row_id (t ! i)"
    using i by (simp only: nth_add_row_number)
  then show "map row_id (add_row_number t) ! i = map row_id t ! i"
    using i by (simp add: length_add_row_number)
qed

lemma ids_ascending_add_row_number:
  assumes "list_all (\<lambda>r. col ''id'' r = None) t"
  shows "ids_ascending (add_row_number t)"
proof -
  have ids: "map row_id (add_row_number t) = map (\<lambda>k. Some (int k)) [1..<Suc (length t)]"
    using assms by (rule row_ids_add_row_number)
  have "map (\<lambda>r. the (row_id r)) (add_row_number t) = map the (map row_id (add_row_number t))"
    by simp
  also have "\<dots> = map int [1..<Suc (length t)]"
    unfolding ids by simp
  finally have keys: "map (\<lambda>r. the (row_id r)) (add_row_number t) = map int [1..<Suc (length t)]" .
  have "sorted_wrt (<) (map int [1..<Suc (length t)])"
    by (simp add: sorted_wrt_map del: upt_Suc)
  then have "sorted_wrt (<) (map (\<lambda>r. the (row_id r)) (add_row_number t))"
    by (simp only: keys)
  moreover have "has_ids (add_row_number t)"
  proof -
    have "\<forall>x \<in> set (map row_id (add_row_number t)). x \<noteq> None"
      unfolding ids by auto
    then show ?thesis by (simp add: has_ids_def list_all_iff)
  qed
  ultimately show ?thesis by (simp add: ids_ascending_def)
qed

lemma passengers_no_id: "list_all (\<lambda>r. col ''id'' r = None) (passengers k)"
  by (simp add: passengers_def list_all_iff col_def)

lemma get_create_titanic_db_fresh:
  "get_create_titanic_db None csv force_create = Inr [''titanic'' \<mapsto> add_row_number csv]"
proof -
  have "(Map.empty(''titanic'' \<mapsto> csv, ''titanic_with_id'' \<mapsto> add_row_number csv))
          (''titanic'' := None, ''titanic_with_id'' := None, ''titanic'' \<mapsto> add_row_number csv)
        = [''titanic'' \<mapsto> add_row_number csv]"
    by (rule ext) simp
  then show ?thesis
    by (simp add: get_create_titanic_db_def create_table_if_not_exists_as_def
        create_table_as_def drop_table_def rename_table_def Let_def)
qed

lemma ingested_ids_fresh:
  "ingested_ids None csv force_create = Inr (map row_id (add_row_number csv))"
  by (simp add: ingested_ids_def get_create_titanic_db_fresh)

lemma ingested_ids_without_id_column:
  assumes "list_all (\<lambda>r. col ''id'' r = None) csv"
  shows "ingested_ids None csv force_create = Inr (map (\<lambda>k. Some (int k)) [1..<Suc (length csv)])"
  using assms by (simp add: ingested_ids_fresh row_ids_add_row_number)

lemma ingested_ids_with_id_column:
  assumes "list_all (\<lambda>r. col ''id'' r \<noteq> None) csv"
  shows "ingested_ids None csv force_create = Inr (map row_id csv)"
  using assms by (simp add: ingested_ids_fresh row_ids_kept)

text \<open>
  Claim C9, at an input where the code breaks it. Ingesting a CSV that has a column
  \<^verbatim>\<open>id\<close> of its own, 7 in both rows, into a fresh database file leaves a table whose two
  rows both have the identifier 7; the row numbers are in a column \<^verbatim>\<open>id_1\<close>.
\<close>

theorem ingestion_keeps_csv_id:
  "ingested_ids None csv_with_id False = Inr [Some 7, Some 7] \<and>
   \<not> distinct [Some 7, Some (7::int)] \<and>
   map_sum id (map_option (map (map fst)) \<circ> (\<lambda>con. con ''titanic''))
     (get_create_titanic_db None csv_with_id False)
     = Inr (Some [[''id'', ''ticket'', ''id_1''], [''id'', ''ticket'', ''id_1'']])"
proof -
  have "list_all (\<lambda>r. col ''id'' r \<noteq> None) csv_with_id"
    by (simp add: csv_with_id_def col_def)
  then have "ingested_ids None csv_with_id False = Inr (map row_id csv_with_id)"
    by (rule ingested_ids_with_id_column)
  moreover have "map row_id csv_with_id = [Some 7, Some 7]"
    by (simp add: csv_with_id_def row_id_def col_def)
  moreover have "map (map fst) (add_row_number csv_with_id)
      = [[''id'', ''ticket'', ''id_1''], [''id'', ''ticket'', ''id_1'']]"
    by code_simp
  ultimately show ?thesis
    by (simp add: get_create_titanic_db_fresh)
qed

section \<open>Instances of the round trip\<close>

text \<open>
  The instance of C2 at six ingested passengers, four samples and seed 42; the shuffle
  reverses the rows.
\<close>

theorem partition_round_trip_witness:
  "ingested 6 ''titanic'' = Some (add_row_number (passengers 6)) \<and> (1::int) \<le> 4 \<and>
   is_permutation (demo_rng (Some 42) (length (add_row_number (passengers 6))))
     (length (add_row_number (passengers 6))) \<and>
   has_ids (add_row_number (passengers 6)) \<and>
   distinct (map row_id (add_row_number (passengers 6))) \<and>
   ids_ascending (add_row_number (passengers 6)) \<and>
   map_sum id (map (map (row_id \<circ> snd)) \<circ> fst)
     (fst (create_random_samples demo_rng (ingested 6) 4 42))
     = Inr [[Some 6, Some 5], [Some 4, Some 3], [Some 2, Some 1], []] \<and>
   (\<exists>samples sizes.
      create_random_samples demo_rng (ingested 6) 4 42 = (Inr (samples, sizes), ingested 6) \<and>
      length samples = 4 \<and>
      mset (concat (map (map snd) samples)) = mset (add_row_number (passengers 6)) \<and>
      (\<Sum>s\<leftarrow>samples. count_list (map (\<lambda>(l, x). row_id x) s) (Some 3)) = 1 \<and>
      concat_samples samples = Inr (fetchdf (add_row_number (passengers 6))) \<and>
      identical (ingested 6) samples = Inr True)"
proof -
  let ?T = "add_row_number (passengers 6)"
  have asc: "ids_ascending ?T"
    using passengers_no_id by (rule ids_ascending_add_row_number)
  then have d: "distinct (map row_id ?T)" and h: "has_ids ?T"
    by (rule ids_ascending_distinct, rule ids_ascending_has_ids)
  have buckets: "map_sum id (map (map (row_id \<circ> snd)) \<circ> fst)
     (fst (create_random_samples demo_rng (ingested 6) 4 42))
     = Inr [[Some 6, Some 5], [Some 4, Some 3], [Some 2, Some 1], []]"
    by code_simp
  have "?T ! 2 \<in> set ?T"
    by (simp add: length_add_row_number length_passengers)
  moreover have "row_id (?T ! 2) = Some 3"
    by code_simp
  ultimately obtain r where r: "r \<in> set ?T" "row_id r = Some 3"
    by blast
  obtain samples sizes where s:
    "create_random_samples demo_rng (ingested 6) 4 42 = (Inr (samples, sizes), ingested 6)"
    "length samples = nat 4"
    "mset (concat (map (map snd) samples)) = mset ?T"
    "distinct (map row_id ?T) \<longrightarrow>
       (\<forall>r \<in> set ?T.
          (\<Sum>s\<leftarrow>samples. count_list (map (\<lambda>(l, x). row_id x) s) (row_id r)) = 1)"
    "ids_ascending ?T \<longrightarrow>
       concat_samples samples = Inr (fetchdf ?T) \<and>
       identical (ingested 6) samples = Inr True"
    using partition_round_trip
      [where con = "ingested 6" and T = ?T and n = 4
         and rng = demo_rng and seed = 42, OF ingested_titanic _ demo_rng_permutation]
    by auto
  have "(\<Sum>s\<leftarrow>samples. count_list (map (\<lambda>(l, x). row_id x) s) (Some 3)) = 1"
    using s(4) d r by fastforce
  then show ?thesis
    using s asc d h buckets by (auto simp: ingested_titanic demo_rng_permutation)
qed

text \<open>
  Claim C2 as the specification states it fails there: a table with the distinct identifiers
  3, 2, 1 in stored order; the cross-check answers no.
\<close>

theorem partition_round_trip_counterexample:
  "map_option (map row_id) (descending ''titanic'') = Some [Some 3, Some 2, Some 1] \<and>
   distinct [Some 3, Some 2, Some (1::int)] \<and>
   cross_check demo_rng descending 2 42 = Inr False"
  by code_simp

section \<open>Inputs\<close>



section \<open>Rules\<close>

lemma filter_eq_single:
  assumes "j < length xs" and "P (xs ! j)" and "\<And>k. k < length xs \<Longrightarrow> k \<noteq> j \<Longrightarrow> \<not> P (xs ! k)"
  shows "filter P xs = [xs ! j]"
proof -
  have before: "filter P (take j xs) = []"
  proof -
    have "\<not> P x" if "x \<in> set (take j xs)" for x
    proof -
      from that obtain k where "k < length (take j xs)" and "take j xs ! k = x"
        by (auto simp: in_set_conv_nth)
      then have "k < j" and "k < length xs" and "x = xs ! k" using assms(1) by simp_all
      then show ?thesis using assms(3) [of k] by simp
    qed
    then show ?thesis by (simp add: filter_empty_conv)
  qed
  have after: "filter P (drop (Suc j) xs) = []"
  proof -
    have "\<not> P x" if "x \<in> set (drop (Suc j) xs)" for x
    proof -
      from that obtain k where "k < length (drop (Suc j) xs)" and "drop (Suc j) xs ! k = x"
        by (auto simp: in_set_conv_nth)
      then have "Suc j + k < length xs" and "x = xs ! (Suc j + k)" using assms(1) by simp_all
      then show ?thesis using assms(3) [of "Suc j + k"] by simp
    qed
    then show ?thesis by (simp add: filter_empty_conv)
  qed
  have "xs = take j xs @ xs ! j # drop (Suc j) xs"
    using assms(1) by (rule id_take_nth_drop)
  then have "filter P xs = filter P (take j xs @ xs ! j # drop (Suc j) xs)" by simp
  also have "\<dots> = [xs ! j]"
    using before after assms(2) by simp
  finally show ?thesis .
qed

lemma rows_passed_complement:
  "length (filter (passes rl) t) = length t - length (failing_rows rl t)"
  using sum_length_filter_compl [of "passes rl" t] by (simp add: failing_rows_def)

lemma passes_between_number:
  assumes "col c r = Some v" and "num_of v = Some q"
  shows "passes (Between c lo hi pol) r \<longleftrightarrow> lo \<le> q \<and> q \<le> hi"
proof -
  have "v \<noteq> Null" using assms(2) by auto
  then show ?thesis using assms by simp
qed

lemma titanic_rules_age: "titanic_rules ! 7 = Between ''age'' 0 70 PassOnNull"
  by (simp add: titanic_rules_def MIN_AGE_def MAX_AGE_def)

lemma titanic_rules_embarked:
  "titanic_rules ! 10 = InSet ''embarked'' {StrV ''C'', StrV ''Q'', StrV ''S''}"
  by (simp add: titanic_rules_def PORT_EMBARKED_def)

text \<open>
  Claim C5. A Between rule with PassOnNull passes a null, and passes a number exactly when
  it lies within the bounds, both inclusive. The notebook's eighth step is
  \<open>Between ''age'' 0 70 PassOnNull\<close>. On a table of ten rows with one null age, one age 85 and
  the other ages within 0 and 70, this rule fails exactly the row of the 85; the null row
  passes.
\<close>

theorem between_pass_on_null:
  "(col c r = Some Null \<longrightarrow> passes (Between c lo hi PassOnNull) r) \<and>
   (col c r = Some v \<and> num_of v = Some q \<longrightarrow>
      (passes (Between c lo hi PassOnNull) r \<longleftrightarrow> lo \<le> q \<and> q \<le> hi)) \<and>
   titanic_rules ! 7 = Between ''age'' 0 70 PassOnNull \<and>
   (length T = 10 \<and> i < 10 \<and> j < 10 \<and>
    col ''age'' (T ! i) = Some Null \<and>
    col ''age'' (T ! j) = Some old \<and> num_of old = Some 85 \<and>
    (\<forall>k < 10. k \<noteq> i \<and> k \<noteq> j \<longrightarrow>
       (\<exists>a q. col ''age'' (T ! k) = Some a \<and> num_of a = Some q \<and> 0 \<le> q \<and> q \<le> 70))
    \<longrightarrow> passes (Between ''age'' 0 70 PassOnNull) (T ! i) \<and>
        failing_rows (Between ''age'' 0 70 PassOnNull) T = [T ! j] \<and>
        failing_row_ids (evaluate_rule T (Between ''age'' 0 70 PassOnNull)) = [row_id (T ! j)] \<and>
        rows_passed (evaluate_rule T (Between ''age'' 0 70 PassOnNull)) = 9)"
proof (intro conjI impI)
  show "passes (Between c lo hi PassOnNull) r" if "col c r = Some Null"
    using that by simp
  show "passes (Between c lo hi PassOnNull) r \<longleftrightarrow> lo \<le> q \<and> q \<le> hi"
    if "col c r = Some v \<and> num_of v = Some q"
    using that passes_between_number [of c r v q lo hi PassOnNull] by blast
  show "titanic_rules ! 7 = Between ''age'' 0 70 PassOnNull" by (rule titanic_rules_age)
next
  let ?rl = "Between ''age'' 0 70 PassOnNull"
  assume a: "length T = 10 \<and> i < 10 \<and> j < 10 \<and>
    col ''age'' (T ! i) = Some Null \<and>
    col ''age'' (T ! j) = Some old \<and> num_of old = Some 85 \<and>
    (\<forall>k < 10. k \<noteq> i \<and> k \<noteq> j \<longrightarrow>
       (\<exists>a q. col ''age'' (T ! k) = Some a \<and> num_of a = Some q \<and> 0 \<le> q \<and> q \<le> 70))"
  show null: "passes ?rl (T ! i)" using a by simp
  have j: "j < length T" using a by simp
  have "col ''age'' (T ! j) = Some old" and "num_of old = Some 85" using a by simp_all
  then have "passes ?rl (T ! j) \<longleftrightarrow> (0::rat) \<le> 85 \<and> (85::rat) \<le> 70"
    by (rule passes_between_number)
  then have old: "\<not> passes ?rl (T ! j)" by simp
  have rest: "\<not> \<not> passes ?rl (T ! k)" if k: "k < length T" "k \<noteq> j" for k
  proof (cases "k = i")
    case True
    then show ?thesis using null by simp
  next
    case False
    with a k have "\<exists>a' q. col ''age'' (T ! k) = Some a' \<and> num_of a' = Some q \<and> 0 \<le> q \<and> q \<le> 70"
      by simp
    then obtain a' q where "col ''age'' (T ! k) = Some a'" "num_of a' = Some q" "0 \<le> q" "q \<le> 70"
      by blast
    then show ?thesis
      using passes_between_number [of "''age''" "T ! k" a' q 0 70 PassOnNull] by simp
  qed
  show f: "failing_rows ?rl T = [T ! j]"
    unfolding failing_rows_def using j old rest by (rule filter_eq_single)
  show "failing_row_ids (evaluate_rule T ?rl) = [row_id (T ! j)]"
    by (simp add: evaluate_rule_def f)
  show "rows_passed (evaluate_rule T ?rl) = 9"
    using a by (simp add: evaluate_rule_def rows_passed_complement f)
qed

text \<open>
  Claim C6. An InSet rule passes a row exactly when its value is not null and is one of
  the allowed values; a null fails even where the allowed values hold a null. The notebook's
  eleventh step is \<open>InSet ''embarked'' {C, Q, S}\<close>. On a table with the ports C, Q, S, X and
  null, this rule fails exactly two rows, the X and the null.
\<close>

theorem in_set_null_fails:
  "(passes (InSet c allowed) r \<longleftrightarrow> (\<exists>v. col c r = Some v \<and> v \<noteq> Null \<and> v \<in> allowed)) \<and>
   (col c r = Some Null \<longrightarrow> \<not> passes (InSet c allowed) r) \<and>
   titanic_rules ! 10 = InSet ''embarked'' {StrV ''C'', StrV ''Q'', StrV ''S''} \<and>
   (map (col ''embarked'') T =
      [Some (StrV ''C''), Some (StrV ''Q''), Some (StrV ''S''), Some (StrV ''X''), Some Null]
    \<longrightarrow> failing_rows (InSet ''embarked'' {StrV ''C'', StrV ''Q'', StrV ''S''}) T = [T ! 3, T ! 4] \<and>
        length (failing_row_ids
          (evaluate_rule T (InSet ''embarked'' {StrV ''C'', StrV ''Q'', StrV ''S''}))) = 2)"
proof (intro conjI impI)
  show "passes (InSet c allowed) r \<longleftrightarrow> (\<exists>v. col c r = Some v \<and> v \<noteq> Null \<and> v \<in> allowed)"
    by (cases "col c r") simp_all
  show "\<not> passes (InSet c allowed) r" if "col c r = Some Null"
    using that by simp
  show "titanic_rules ! 10 = InSet ''embarked'' {StrV ''C'', StrV ''Q'', StrV ''S''}"
    by (rule titanic_rules_embarked)
next
  let ?rl = "InSet ''embarked'' {StrV ''C'', StrV ''Q'', StrV ''S''}"
  assume a: "map (col ''embarked'') T =
      [Some (StrV ''C''), Some (StrV ''Q''), Some (StrV ''S''), Some (StrV ''X''), Some Null]"
  then obtain r0 r1 r2 r3 r4 where T: "T = [r0, r1, r2, r3, r4]"
    and c: "col ''embarked'' r0 = Some (StrV ''C'')" "col ''embarked'' r1 = Some (StrV ''Q'')"
      "col ''embarked'' r2 = Some (StrV ''S'')" "col ''embarked'' r3 = Some (StrV ''X'')"
      "col ''embarked'' r4 = Some Null"
    by (auto simp: map_eq_Cons_conv)
  show f: "failing_rows ?rl T = [T ! 3, T ! 4]"
    by (simp add: failing_rows_def T c)
  show "length (failing_row_ids (evaluate_rule T ?rl)) = 2"
    by (simp add: evaluate_rule_def f)
qed

section \<open>Sundering\<close>

lemma failing_ids_interrogate:
  "concat (map failing_row_ids (rule_results (interrogate T R))) =
     concat (map (\<lambda>rl. map row_id (failing_rows rl T)) R)"
  by (simp add: interrogate_def Let_def evaluate_rule_def o_def)

lemma failing_id_iff:
  assumes "distinct (map row_id T)" and "r \<in> set T"
  shows "row_id r \<in> set (concat (map failing_row_ids (rule_results (interrogate T R))))
           \<longleftrightarrow> (\<exists>rl \<in> set R. \<not> passes rl r)"
proof -
  have inj: "inj_on row_id (set T)" using assms(1) by (simp add: distinct_map)
  have one: "row_id r \<in> set (map row_id (failing_rows rl T)) \<longleftrightarrow> \<not> passes rl r" for rl
  proof
    assume "row_id r \<in> set (map row_id (failing_rows rl T))"
    then obtain x where x: "x \<in> set T" "\<not> passes rl x" "row_id x = row_id r"
      by (auto simp: failing_rows_def)
    then have "x = r" using inj assms(2) by (auto dest: inj_onD)
    with x show "\<not> passes rl r" by simp
  next
    assume "\<not> passes rl r"
    then have "r \<in> set (failing_rows rl T)" using assms(2) by (simp add: failing_rows_def)
    then show "row_id r \<in> set (map row_id (failing_rows rl T))" by simp
  qed
  have "row_id r \<in> set (concat (map (\<lambda>rl. map row_id (failing_rows rl T)) R))
          \<longleftrightarrow> (\<exists>rl \<in> set R. row_id r \<in> set (map row_id (failing_rows rl T)))"
    by auto
  then show ?thesis by (simp only: failing_ids_interrogate one)
qed

lemma sunder_interrogate:
  assumes "distinct (map row_id T)"
  shows "sunder T (interrogate T R) =
     (filter (\<lambda>r. \<forall>rl \<in> set R. passes rl r) T, filter (\<lambda>r. \<exists>rl \<in> set R. \<not> passes rl r) T)"
proof -
  define ids where "ids = set (concat (map failing_row_ids (rule_results (interrogate T R))))"
  have iff: "row_id r \<in> ids \<longleftrightarrow> (\<exists>rl \<in> set R. \<not> passes rl r)" if "r \<in> set T" for r
    unfolding ids_def using assms that by (rule failing_id_iff)
  have "filter (\<lambda>r. row_id r \<in> ids) T = filter (\<lambda>r. \<exists>rl \<in> set R. \<not> passes rl r) T"
    using iff by (intro filter_cong) simp_all
  moreover
  have "filter (\<lambda>r. row_id r \<notin> ids) T = filter (\<lambda>r. \<forall>rl \<in> set R. passes rl r) T"
    using iff by (intro filter_cong) simp_all
  ultimately show ?thesis by (simp add: sunder_def Let_def ids_def)
qed

text \<open>
  Claim C7. For a table with distinct identifiers and any rules, sundering by the report of
  \<open>interrogate\<close> gives as failing table the rows that fail at least one rule and as passing
  table the rows that pass every rule. The two tables together hold every row of the table
  once, and no identifier is in both.
\<close>

theorem sunder_partitions_table:
  assumes "distinct (map row_id T)"
  shows "\<exists>passing failing.
     sunder T (interrogate T R) = (passing, failing) \<and>
     failing = filter (\<lambda>r. \<exists>rl \<in> set R. \<not> passes rl r) T \<and>
     passing = filter (\<lambda>r. \<forall>rl \<in> set R. passes rl r) T \<and>
     mset passing + mset failing = mset T \<and>
     set (map row_id passing) \<inter> set (map row_id failing) = {} \<and>
     set (map row_id passing) \<union> set (map row_id failing) = set (map row_id T)"
proof -
  define passing where "passing = filter (\<lambda>r. \<forall>rl \<in> set R. passes rl r) T"
  define failing where "failing = filter (\<lambda>r. \<exists>rl \<in> set R. \<not> passes rl r) T"
  have split: "sunder T (interrogate T R) = (passing, failing)"
    unfolding passing_def failing_def using assms by (rule sunder_interrogate)
  have f: "failing = filter (\<lambda>r. \<not> (\<forall>rl \<in> set R. passes rl r)) T"
    by (simp add: failing_def)
  have whole: "mset passing + mset failing = mset T"
    unfolding f passing_def by simp
  have inj: "inj_on row_id (set T)" using assms by (simp add: distinct_map)
  have disjoint: "set (map row_id passing) \<inter> set (map row_id failing) = {}"
  proof (rule ccontr)
    assume "set (map row_id passing) \<inter> set (map row_id failing) \<noteq> {}"
    then obtain x y where "x \<in> set passing" "y \<in> set failing" "row_id x = row_id y"
      by (auto simp: image_iff)
    moreover have "x \<in> set T" "y \<in> set T"
      using calculation by (simp_all add: passing_def failing_def)
    ultimately have "x = y" using inj by (auto dest: inj_onD)
    with \<open>x \<in> set passing\<close> \<open>y \<in> set failing\<close> show False
      by (auto simp: passing_def failing_def)
  qed
  have "set passing \<union> set failing = set T"
    by (auto simp: passing_def failing_def)
  then have cover: "set (map row_id passing) \<union> set (map row_id failing) = set (map row_id T)"
    by (simp add: image_Un [symmetric])
  show ?thesis
    using split whole disjoint cover passing_def failing_def by blast
qed

section \<open>Instances\<close>

lemma scenario_a_ages:
  "map (col ''age'') scenario_a =
     [Some (FloatV 22), Some (FloatV 38), Some (FloatV 26), Some Null, Some (FloatV 35),
      Some (FloatV 85), Some (FloatV 54), Some (FloatV 2), Some (FloatV 27), Some (FloatV 14)]"
  by code_simp

lemma scenario_a_ids:
  "map row_id scenario_a =
     [Some 1, Some 2, Some 3, Some 4, Some 5, Some 6, Some 7, Some 8, Some 9, Some 10]"
  by code_simp

lemma scenario_b_ports:
  "map (col ''embarked'') scenario_b =
      [Some (StrV ''C''), Some (StrV ''Q''), Some (StrV ''S''), Some (StrV ''X''), Some Null]"
  by code_simp

lemma length_scenario_a: "length scenario_a = 10"
  by code_simp


lemma length_scenario_b: "length scenario_b = 5"
  by code_simp

text \<open>The instance of C5 at scenario A: the null age is row 3, the age 85 is row 5.\<close>

theorem between_pass_on_null_witness:
  "length scenario_a = 10 \<and>
   col ''age'' (scenario_a ! 3) = Some Null \<and>
   col ''age'' (scenario_a ! 5) = Some (FloatV 85) \<and>
   passes (Between ''age'' 0 70 PassOnNull) (scenario_a ! 3) \<and>
   failing_rows (Between ''age'' 0 70 PassOnNull) scenario_a = [scenario_a ! 5] \<and>
   failing_row_ids (evaluate_rule scenario_a (Between ''age'' 0 70 PassOnNull)) = [Some 6] \<and>
   rows_passed (evaluate_rule scenario_a (Between ''age'' 0 70 PassOnNull)) = 9"
proof -
  let ?ages = "[Some (FloatV 22), Some (FloatV 38), Some (FloatV 26), Some Null,
      Some (FloatV 35), Some (FloatV 85), Some (FloatV 54), Some (FloatV 2), Some (FloatV 27),
      Some (FloatV 14)]"
  have age: "col ''age'' (scenario_a ! k) = ?ages ! k" if "k < 10" for k
  proof -
    have "map (col ''age'') scenario_a ! k = col ''age'' (scenario_a ! k)"
      using that by (simp add: length_scenario_a)
    then show ?thesis by (simp only: scenario_a_ages)
  qed
  have id6: "row_id (scenario_a ! 5) = Some 6"
  proof -
    have "map row_id scenario_a ! 5 = row_id (scenario_a ! 5)"
      by (simp add: length_scenario_a)
    then show ?thesis by (simp add: scenario_a_ids)
  qed
  have others: "\<forall>k<10. k \<noteq> 3 \<and> k \<noteq> 5 \<longrightarrow>
       (\<exists>a q. col ''age'' (scenario_a ! k) = Some a \<and> num_of a = Some q \<and> 0 \<le> q \<and> q \<le> 70)"
  proof (intro allI impI)
    fix k :: nat assume k: "k < 10" "k \<noteq> 3 \<and> k \<noteq> 5"
    then have "k = 0 \<or> k = 1 \<or> k = 2 \<or> k = 4 \<or> k = 6 \<or> k = 7 \<or> k = 8 \<or> k = 9"
      by arith
    then consider "k = 0" | "k = 1" | "k = 2" | "k = 4" | "k = 6" | "k = 7" | "k = 8" | "k = 9"
      by blast
    then show "\<exists>a q. col ''age'' (scenario_a ! k) = Some a \<and> num_of a = Some q \<and> 0 \<le> q \<and> q \<le> 70"
      by cases (simp_all add: age)
  qed
  have hyp: "length scenario_a = 10 \<and> (3::nat) < 10 \<and> (5::nat) < 10 \<and>
    col ''age'' (scenario_a ! 3) = Some Null \<and>
    col ''age'' (scenario_a ! 5) = Some (FloatV 85) \<and> num_of (FloatV 85) = Some 85 \<and>
    (\<forall>k < 10. k \<noteq> 3 \<and> k \<noteq> 5 \<longrightarrow>
       (\<exists>a q. col ''age'' (scenario_a ! k) = Some a \<and> num_of a = Some q \<and> 0 \<le> q \<and> q \<le> 70))"
    using others by (simp add: length_scenario_a age)
  have "passes (Between ''age'' 0 70 PassOnNull) (scenario_a ! 3) \<and>
        failing_rows (Between ''age'' 0 70 PassOnNull) scenario_a = [scenario_a ! 5] \<and>
        failing_row_ids (evaluate_rule scenario_a (Between ''age'' 0 70 PassOnNull))
          = [row_id (scenario_a ! 5)] \<and>
        rows_passed (evaluate_rule scenario_a (Between ''age'' 0 70 PassOnNull)) = 9"
    using between_pass_on_null
      [where T = scenario_a and i = 3 and j = 5 and old = "FloatV 85" and c = "''age''"
         and r = "scenario_a ! 3" and lo = 0 and hi = 70 and v = "FloatV 85" and q = 85]
      hyp
    by blast
  then show ?thesis using hyp by (simp add: id6)
qed

text \<open>The instance of C6 at scenario B.\<close>

theorem in_set_null_fails_witness:
  "map (col ''embarked'') scenario_b =
      [Some (StrV ''C''), Some (StrV ''Q''), Some (StrV ''S''), Some (StrV ''X''), Some Null] \<and>
   failing_rows (InSet ''embarked'' {StrV ''C'', StrV ''Q'', StrV ''S''}) scenario_b
     = [scenario_b ! 3, scenario_b ! 4] \<and>
   length (failing_row_ids
     (evaluate_rule scenario_b (InSet ''embarked'' {StrV ''C'', StrV ''Q'', StrV ''S''}))) = 2 \<and>
   \<not> passes (InSet ''embarked'' {StrV ''C'', StrV ''Q'', StrV ''S''}) (scenario_b ! 4)"
proof -
  have null: "col ''embarked'' (scenario_b ! 4) = Some Null"
  proof -
    have "map (col ''embarked'') scenario_b ! 4 = col ''embarked'' (scenario_b ! 4)"
      by (simp add: length_scenario_b)
    then show ?thesis by (simp add: scenario_b_ports)
  qed
  show ?thesis
    using in_set_null_fails
      [where T = scenario_b and c = "''embarked''" and r = "scenario_b ! 4"
         and allowed = "{StrV ''C'', StrV ''Q'', StrV ''S''}"]
      scenario_b_ports null
    by blast
qed

text \<open>
  The instance of C7 at scenario A and two rules on the age: the row of the null (identifier
  4) and the row of the 85 (identifier 6) form the failing table.
\<close>

theorem sunder_partitions_table_witness:
  "distinct (map row_id scenario_a) \<and>
   sunder scenario_a (interrogate scenario_a [NotNull ''age'', Between ''age'' 0 70 PassOnNull]) =
     (filter (\<lambda>r. \<forall>rl \<in> set [NotNull ''age'', Between ''age'' 0 70 PassOnNull]. passes rl r)
        scenario_a,
      filter (\<lambda>r. \<exists>rl \<in> set [NotNull ''age'', Between ''age'' 0 70 PassOnNull]. \<not> passes rl r)
        scenario_a) \<and>
   map row_id (snd (sunder scenario_a
     (interrogate scenario_a [NotNull ''age'', Between ''age'' 0 70 PassOnNull])))
     = [Some 4, Some 6] \<and>
   map row_id (fst (sunder scenario_a
     (interrogate scenario_a [NotNull ''age'', Between ''age'' 0 70 PassOnNull])))
     = [Some 1, Some 2, Some 3, Some 5, Some 7, Some 8, Some 9, Some 10]"
proof -
  have d: "distinct (map row_id scenario_a)"
    by (simp add: scenario_a_ids)
  have failing: "map row_id (snd (sunder scenario_a
     (interrogate scenario_a [NotNull ''age'', Between ''age'' 0 70 PassOnNull])))
     = [Some 4, Some 6]"
    by code_simp
  have passing: "map row_id (fst (sunder scenario_a
     (interrogate scenario_a [NotNull ''age'', Between ''age'' 0 70 PassOnNull])))
     = [Some 1, Some 2, Some 3, Some 5, Some 7, Some 8, Some 9, Some 10]"
    by code_simp
  have "sunder scenario_a (interrogate scenario_a [NotNull ''age'', Between ''age'' 0 70 PassOnNull]) =
     (filter (\<lambda>r. \<forall>rl \<in> set [NotNull ''age'', Between ''age'' 0 70 PassOnNull]. passes rl r)
        scenario_a,
      filter (\<lambda>r. \<exists>rl \<in> set [NotNull ''age'', Between ''age'' 0 70 PassOnNull]. \<not> passes rl r)
        scenario_a)"
    using sunder_partitions_table
      [where T = scenario_a and R = "[NotNull ''age'', Between ''age'' 0 70 PassOnNull]", OF d]
    by blast
  then show ?thesis
    using d failing passing by (intro conjI)
qed

end
